(* ===== verification/Prelude.thy ===== *)
theory Prelude
  imports Main
begin

text \<open>
  Shared vocabulary of the development. A Rust \<open>&str\<close> is modelled by its UTF-8 bytes:
  Isabelle's \<^typ>\<open>char\<close> is exactly one byte, so \<open>str\<close> is a \<^typ>\<open>char list\<close> and
  byte offsets of the Rust code are list indices. Code points are \<^typ>\<open>nat\<close>.
  A Rust panic (checked \<open>usize\<close> arithmetic in debug builds, out-of-range or
  non-boundary string slicing) is a value of \<open>panic\<close>, and a computation that may panic
  returns \<open>panic + 'a\<close>, sequenced by \<open>rbind\<close>. \<open>usize\<close> is \<^typ>\<open>nat\<close>: every
  addition of the code is bounded by the length of the text, so only subtraction can
  leave the range, and \<open>usize_sub\<close> makes that a panic.
\<close>

named_theorems str_simps "evaluation rules for the model of Rust strings"

type_synonym byte = char
type_synonym str = "byte list"
type_synonym codepoint = nat

datatype panic =
    Arith_overflow
  | Slice_out_of_bounds
  | Slice_order
  | Slice_not_char_boundary

type_synonym 'a res = "panic + 'a"

definition rbind :: "'e + 'a \<Rightarrow> ('a \<Rightarrow> 'e + 'b) \<Rightarrow> 'e + 'b" where
  "rbind m f = (case m of Inl e \<Rightarrow> Inl e | Inr x \<Rightarrow> f x)"

text \<open>\<open>a - b\<close> on \<open>usize\<close> with overflow checks on (the debug profile).\<close>

definition usize_sub :: "nat \<Rightarrow> nat \<Rightarrow> nat res" where
  "usize_sub a b = (if b \<le> a then Inr (a - b) else Inl Arith_overflow)"

text \<open>\<open>Option::is_some_and\<close> and \<open><[T]>::get\<close>.\<close>

definition is_some_and :: "('a \<Rightarrow> bool) \<Rightarrow> 'a option \<Rightarrow> bool" where
  "is_some_and p x = (case x of None \<Rightarrow> False | Some v \<Rightarrow> p v)"

definition slice_get :: "'a list \<Rightarrow> nat \<Rightarrow> 'a option" where
  "slice_get xs i = (if i < length xs then Some (xs ! i) else None)"

subsection \<open>The panic monad\<close>

lemma rbind_Inr [simp]: "rbind (Inr x) f = f x"
  by (simp add: rbind_def)

lemma rbind_Inl [simp]: "rbind (Inl e) f = Inl e"
  by (simp add: rbind_def)

lemma rbind_cong [fundef_cong]:
  assumes "m1 = m2" and "\<And>x. m2 = Inr x \<Longrightarrow> f1 x = f2 x"
  shows "rbind m1 f1 = rbind m2 f2"
  using assms by (cases m1) auto

lemma rbind_eq_Inr:
  "rbind m f = Inr y \<longleftrightarrow> (\<exists>x. m = Inr x \<and> f x = Inr y)"
  by (cases m) auto

lemma rbind_eq_Inl:
  "rbind m f = Inl e \<longleftrightarrow> m = Inl e \<or> (\<exists>x. m = Inr x \<and> f x = Inl e)"
  by (cases m) auto

lemma rbind_assoc [simp]:
  "rbind (rbind m f) g = rbind m (\<lambda>x. rbind (f x) g)"
  by (cases m) auto

lemma rbind_Inr_right [simp]: "rbind m Inr = m"
  by (cases m) auto

lemma usize_sub_ok [simp]: "b \<le> a \<Longrightarrow> usize_sub a b = Inr (a - b)"
  by (simp add: usize_sub_def)

lemma usize_sub_overflow [simp]: "a < b \<Longrightarrow> usize_sub a b = Inl Arith_overflow"
  by (simp add: usize_sub_def)

lemma is_some_and_simps [simp]:
  "is_some_and p None = False"
  "is_some_and p (Some v) = p v"
  by (simp_all add: is_some_and_def)

lemma slice_get_simps [simp]:
  "i < length xs \<Longrightarrow> slice_get xs i = Some (xs ! i)"
  "length xs \<le> i \<Longrightarrow> slice_get xs i = None"
  by (simp_all add: slice_get_def)

subsection \<open>Lists\<close>

lemma take_Suc_drop_nth:
  "i < length xs \<Longrightarrow> take (Suc n) (drop i xs) = xs ! i # take n (drop (Suc i) xs)"
  by (simp add: Cons_nth_drop_Suc [symmetric])

lemma drop_split_at:
  "p \<le> length s \<Longrightarrow> s = take p s @ drop p s"
  by simp

lemma mod_in_block:
  assumes "(k::nat) * n \<le> x" and "x < k * n + n"
  shows "x mod n = x - k * n"
proof -
  have "x div n = k" using assms by (intro div_nat_eqI) (simp_all add: mult.commute)
  then show ?thesis using minus_div_mult_eq_mod [of x n] by simp
qed

lemma take_add_drop:
  "take (a + b) s = take a s @ take b (drop a s)"
  by (simp add: take_add)

end
