(* ===== verification/Rust_Str.thy ===== *)
theory Rust_Str
  imports Prelude
begin

text \<open>
  The parts of Rust's \<open>core::str\<close> that the requirements parser calls, on the byte model
  of \<open>Prelude\<close>: UTF-8 well-formedness (the invariant of every \<open>&str\<close>), char
  boundaries and panicking slicing (\<open>&s[a..b]\<close>, \<open>&s[..b]\<close>, \<open>&s[a..]\<close>),
  decoding (\<open>chars\<close>, \<open>chars().rev().next()\<close>), \<open>char::is_whitespace\<close>,
  \<open>trim_start\<close>, \<open>trim\<close>, \<open>starts_with\<close>, \<open>find\<close>, and the \<open>memchr\<close> crate's
  \<open>memchr2\<close> and \<open>memchr_iter\<close>.
\<close>

abbreviation LF :: byte where "LF \<equiv> CHR 0x0A"
abbreviation CR :: byte where "CR \<equiv> CHR 0x0D"
abbreviation HASH :: byte where "HASH \<equiv> CHR 0x23"
abbreviation BSLASH :: byte where "BSLASH \<equiv> CHR 0x5C"

definition is_ascii :: "byte \<Rightarrow> bool" where
  "is_ascii b \<longleftrightarrow> of_char b < (0x80::nat)"

text \<open>A UTF-8 continuation byte, \<open>10xxxxxx\<close>: \<open>(b as i8) < -0x40\<close> in \<open>is_char_boundary\<close>.\<close>

definition is_cont :: "byte \<Rightarrow> bool" where
  "is_cont b \<longleftrightarrow> (0x80::nat) \<le> of_char b \<and> of_char b < (0xC0::nat)"

subsection \<open>Well-formed UTF-8\<close>

text \<open>
  \<open>byte_in s k lo hi\<close>: the \<open>k\<close>-th byte exists and lies in \<open>[lo, hi]\<close>.
  \<open>utf8_lead x\<close> is the table of \<open>core::str::validations::run_utf8_validation\<close> for a
  non-ASCII lead byte \<open>x\<close>: the width of the encoded character and the range allowed for
  its second byte (the third and fourth must be continuation bytes \<open>0x80..0xBF\<close>);
  \<open>None\<close> for a byte that cannot start a character.
  \<open>utf8_first s\<close> is the width of the well-formed character at the head of \<open>s\<close>.
\<close>

definition byte_in :: "str \<Rightarrow> nat \<Rightarrow> nat \<Rightarrow> nat \<Rightarrow> bool" where
  "byte_in s k lo hi \<longleftrightarrow> k < length s \<and> lo \<le> of_char (s ! k) \<and> of_char (s ! k) \<le> hi"

definition utf8_lead :: "nat \<Rightarrow> (nat \<times> nat \<times> nat) option" where
  "utf8_lead x =
    (if 0xC2 \<le> x \<and> x \<le> 0xDF then Some (2, 0x80, 0xBF)
     else if x = 0xE0 then Some (3, 0xA0, 0xBF)
     else if 0xE1 \<le> x \<and> x \<le> 0xEC then Some (3, 0x80, 0xBF)
     else if x = 0xED then Some (3, 0x80, 0x9F)
     else if 0xEE \<le> x \<and> x \<le> 0xEF then Some (3, 0x80, 0xBF)
     else if x = 0xF0 then Some (4, 0x90, 0xBF)
     else if 0xF1 \<le> x \<and> x \<le> 0xF3 then Some (4, 0x80, 0xBF)
     else if x = 0xF4 then Some (4, 0x80, 0x8F)
     else None)"

definition cont_ok :: "str \<Rightarrow> nat \<Rightarrow> nat \<Rightarrow> nat \<Rightarrow> bool" where
  "cont_ok s lo hi n \<longleftrightarrow> byte_in s 0 lo hi \<and> (\<forall>k \<in> {1..<n - 1}. byte_in s k 0x80 0xBF)"

fun utf8_first :: "str \<Rightarrow> nat option" where
  "utf8_first [] = None"
| "utf8_first (b # s) =
    (if of_char b < (0x80::nat) then Some 1
     else case utf8_lead (of_char b) of None \<Rightarrow> None
     | Some (n, lo, hi) \<Rightarrow> if cont_ok s lo hi n then Some n else None)"

declare utf8_first.simps(2) [simp del]

lemma utf8_lead_range:
  "utf8_lead x = Some (n, lo, hi) \<Longrightarrow>
     2 \<le> n \<and> n \<le> 4 \<and> 0x80 \<le> lo \<and> lo \<le> hi \<and> hi \<le> 0xBF \<and> 0xC2 \<le> x \<and> x \<le> 0xF4"
  by (simp add: utf8_lead_def split: if_splits)

lemma cont_ok_length:
  assumes "cont_ok s lo hi n" and "2 \<le> n"
  shows "n - 1 \<le> length s"
proof (cases "n = 2")
  case True
  with assms show ?thesis by (auto simp: cont_ok_def byte_in_def Suc_le_eq)
next
  case False
  then have "n - 2 \<in> {1..<n - 1}" using assms(2) by auto
  with assms(1) have "byte_in s (n - 2) 0x80 0xBF" unfolding cont_ok_def by blast
  then have "n - 2 < length s" by (simp add: byte_in_def)
  with False assms(2) show ?thesis by linarith
qed

lemma utf8_first_Cons_Some:
  "utf8_first (b # s) = Some n \<longleftrightarrow>
     (of_char b < (0x80::nat) \<and> n = 1) \<or>
     (\<not> of_char b < (0x80::nat) \<and> (\<exists>lo hi. utf8_lead (of_char b) = Some (n, lo, hi) \<and> cont_ok s lo hi n))"
  by (auto simp: utf8_first.simps(2) split: option.splits)

lemma utf8_first_range:
  assumes "utf8_first s = Some n"
  shows "1 \<le> n \<and> n \<le> 4 \<and> n \<le> length s"
proof (cases s)
  case Nil
  with assms show ?thesis by simp
next
  case (Cons b r)
  with assms show ?thesis
    using utf8_lead_range cont_ok_length by (fastforce simp: utf8_first_Cons_Some)
qed

function valid_utf8 :: "str \<Rightarrow> bool" where
  "valid_utf8 s =
    (case s of [] \<Rightarrow> True
     | _ \<Rightarrow> (case utf8_first s of None \<Rightarrow> False | Some n \<Rightarrow> valid_utf8 (drop n s)))"
  by pat_completeness auto
termination
  by (relation "measure length") (auto dest: utf8_first_range)

declare valid_utf8.simps [simp del]

subsection \<open>Char boundaries and slicing\<close>

text \<open>\<open>str::is_char_boundary\<close>.\<close>

definition is_char_boundary :: "str \<Rightarrow> nat \<Rightarrow> bool" where
  "is_char_boundary s i =
    (i = 0 \<or> (case slice_get s i of None \<Rightarrow> i = length s | Some b \<Rightarrow> \<not> is_cont b))"

text \<open>
  \<open>&s[a..b]\<close>: \<open>str::get\<close> succeeds when \<open>a \<le> b\<close> and both ends are char
  boundaries; otherwise \<open>slice_error_fail\<close> panics, naming the first of: an end out of
  bounds, \<open>begin > end\<close>, an end inside a character.
\<close>

definition str_slice :: "str \<Rightarrow> nat \<Rightarrow> nat \<Rightarrow> str res" where
  "str_slice s a b =
    (if a \<le> b \<and> is_char_boundary s a \<and> is_char_boundary s b then Inr (take (b - a) (drop a s))
     else if length s < a \<or> length s < b then Inl Slice_out_of_bounds
     else if b < a then Inl Slice_order
     else Inl Slice_not_char_boundary)"

definition str_to :: "str \<Rightarrow> nat \<Rightarrow> str res" where
  "str_to s b = str_slice s 0 b"

definition str_from :: "str \<Rightarrow> nat \<Rightarrow> str res" where
  "str_from s a = str_slice s a (length s)"

subsection \<open>Decoding\<close>

text \<open>
  \<open>core::str::validations::next_code_point\<close>, the decoder behind \<open>str::chars\<close>:
  the lead byte's payload \<open>x AND 0x1F\<close>, each continuation byte's \<open>b AND 0x3F\<close>
  shifted in by 6. A byte missing at the end (impossible in a \<open>&str\<close>) reads as 0.
\<close>

definition cont_at :: "str \<Rightarrow> nat \<Rightarrow> nat" where
  "cont_at r k = (if k < length r then of_char (r ! k) mod 64 else 0)"

fun next_code_point :: "str \<Rightarrow> (codepoint \<times> str) option" where
  "next_code_point [] = None"
| "next_code_point (b # r) =
    (let x = of_char b :: nat in
     if x < 0x80 then Some (x, r)
     else
       let init = x mod 32 in
       if x < 0xE0 then Some (init * 64 + cont_at r 0, drop 1 r)
       else
         let y_z = cont_at r 0 * 64 + cont_at r 1 in
         if x < 0xF0 then Some (init * 4096 + y_z, drop 2 r)
         else Some ((init mod 8) * 262144 + y_z * 64 + cont_at r 2, drop 3 r))"

declare next_code_point.simps(2) [simp del]

lemma next_code_point_shorter:
  "next_code_point s = Some (c, r) \<Longrightarrow> length r < length s"
  by (cases s) (auto simp: Let_def next_code_point.simps(2) split: if_splits)

function chars :: "str \<Rightarrow> codepoint list" where
  "chars s = (case next_code_point s of None \<Rightarrow> [] | Some (c, r) \<Rightarrow> c # chars r)"
  by pat_completeness auto
termination
  by (relation "measure length") (auto dest: next_code_point_shorter)

declare chars.simps [simp del]

text \<open>\<open>s.chars().rev().next()\<close>: the last character.\<close>

definition last_char :: "str \<Rightarrow> codepoint option" where
  "last_char s = (case chars s of [] \<Rightarrow> None | cs \<Rightarrow> Some (last cs))"

text \<open>
  \<open>char::is_whitespace\<close>: ASCII space and \<open>\t \n \v \f \r\<close>, and above \<open>0x7F\<close>
  the Unicode \<open>White_Space\<close> property.
\<close>

definition is_whitespace :: "codepoint \<Rightarrow> bool" where
  "is_whitespace c \<longleftrightarrow>
     c = 0x20 \<or> (0x09 \<le> c \<and> c \<le> 0x0D) \<or>
     (0x7F < c \<and> (c = 0x85 \<or> c = 0xA0 \<or> c = 0x1680 \<or> (0x2000 \<le> c \<and> c \<le> 0x200A) \<or>
                   c = 0x2028 \<or> c = 0x2029 \<or> c = 0x202F \<or> c = 0x205F \<or> c = 0x3000))"

subsection \<open>Trimming and searching\<close>

text \<open>\<open>str::trim_start\<close>: drop leading whitespace characters.\<close>

function trim_start :: "str \<Rightarrow> str" where
  "trim_start s =
    (case next_code_point s of None \<Rightarrow> s
     | Some (c, r) \<Rightarrow> if is_whitespace c then trim_start r else s)"
  by pat_completeness auto
termination
  by (relation "measure length") (auto dest: next_code_point_shorter)

text \<open>\<open>str::trim_end\<close>: keep the bytes up to the last non-whitespace character.\<close>

function trim_end :: "str \<Rightarrow> str" where
  "trim_end s =
    (case next_code_point s of None \<Rightarrow> []
     | Some (c, r) \<Rightarrow>
         (let t = trim_end r in
          if t = [] \<and> is_whitespace c then [] else take (length s - length r) s @ t))"
  by pat_completeness auto
termination
  by (relation "measure length") (auto dest: next_code_point_shorter)

declare trim_start.simps [simp del] trim_end.simps [simp del]

definition trim :: "str \<Rightarrow> str" where
  "trim s = trim_end (trim_start s)"

text \<open>\<open>str::starts_with\<close> with a pattern given by its UTF-8 bytes.\<close>

definition starts_with :: "str \<Rightarrow> str \<Rightarrow> bool" where
  "starts_with s p \<longleftrightarrow> take (length p) s = p"

text \<open>\<open>str::find\<close> with a string pattern: the byte index of the first occurrence.\<close>

fun str_find :: "str \<Rightarrow> str \<Rightarrow> nat option" where
  "str_find [] p = (if p = [] then Some 0 else None)"
| "str_find (b # s) p =
    (if starts_with (b # s) p then Some 0 else map_option Suc (str_find s p))"

text \<open>\<open>memchr::memchr2\<close> and \<open>memchr::memchr_iter\<close> over the bytes.\<close>

fun memchr2 :: "byte \<Rightarrow> byte \<Rightarrow> str \<Rightarrow> nat option" where
  "memchr2 a b [] = None"
| "memchr2 a b (c # s) = (if c = a \<or> c = b then Some 0 else map_option Suc (memchr2 a b s))"

fun memchr_iter :: "byte \<Rightarrow> str \<Rightarrow> nat list" where
  "memchr_iter b [] = []"
| "memchr_iter b (c # s) = (if c = b then 0 # map Suc (memchr_iter b s) else map Suc (memchr_iter b s))"

subsection \<open>Facts on well-formedness\<close>

lemma byte_in_append:
  "k < length xs \<Longrightarrow> byte_in (xs @ ys) k lo hi = byte_in xs k lo hi"
  by (simp add: byte_in_def nth_append)

lemma byte_in_length: "byte_in s k lo hi \<Longrightarrow> k < length s"
  by (simp add: byte_in_def)

lemma cont_ok_append:
  assumes "2 \<le> n" and "n - 1 \<le> length s"
  shows "cont_ok (s @ t) lo hi n \<longleftrightarrow> cont_ok s lo hi n"
proof -
  have b: "\<And>k lo hi. k < n - 1 \<Longrightarrow> byte_in (s @ t) k lo hi = byte_in s k lo hi"
    using assms(2) by (simp add: byte_in_append)
  have "0 < n - 1" using assms(1) by simp
  then show ?thesis unfolding cont_ok_def using b [of 0] b by auto
qed

lemma utf8_first_append_iff:
  assumes "n \<le> length xs"
  shows "utf8_first (xs @ ys) = Some n \<longleftrightarrow> utf8_first xs = Some n"
proof (cases xs)
  case Nil
  with assms show ?thesis using utf8_first_range [of ys 0] by auto
next
  case (Cons b r)
  show ?thesis
  proof (cases "of_char b < (0x80::nat)")
    case True
    then show ?thesis using Cons by (simp add: utf8_first_Cons_Some)
  next
    case nascii: False
    show ?thesis
    proof (cases "\<exists>lo hi. utf8_lead (of_char b) = Some (n, lo, hi)")
      case True
      then obtain lo hi where l: "utf8_lead (of_char b) = Some (n, lo, hi)" by blast
      have "cont_ok (r @ ys) lo hi n \<longleftrightarrow> cont_ok r lo hi n"
        using utf8_lead_range [OF l] assms Cons by (intro cont_ok_append) auto
      with l nascii Cons show ?thesis by (simp add: utf8_first_Cons_Some)
    next
      case False
      with nascii Cons show ?thesis by (simp add: utf8_first_Cons_Some)
    qed
  qed
qed

lemma utf8_first_append:
  "utf8_first xs = Some n \<Longrightarrow> utf8_first (xs @ ys) = Some n"
  using utf8_first_append_iff utf8_first_range by blast

lemma utf8_first_take:
  "utf8_first s = Some n \<Longrightarrow> utf8_first (take n s) = Some n"
  using utf8_first_append_iff [of n "take n s" "drop n s"] utf8_first_range [of s n] by simp

lemma utf8_first_ascii [simp]:
  "is_ascii b \<Longrightarrow> utf8_first (b # s) = Some 1"
  by (simp add: is_ascii_def utf8_first.simps(2))

lemma utf8_first_lead:
  "utf8_first (b # s) = Some n \<Longrightarrow> \<not> is_cont b \<and> (n = 1 \<longleftrightarrow> is_ascii b)"
  by (auto simp: utf8_first_Cons_Some is_cont_def is_ascii_def dest: utf8_lead_range)

lemma utf8_first_cont:
  assumes "utf8_first s = Some n" and "0 < k" and "k < n"
  shows "is_cont (s ! k)"
proof (cases s)
  case Nil
  with assms show ?thesis by simp
next
  case (Cons b r)
  with assms obtain lo hi where
    lead: "utf8_lead (of_char b) = Some (n, lo, hi)" and ok: "cont_ok r lo hi n"
    by (auto simp: utf8_first_Cons_Some)
  have "byte_in r (k - 1) 0x80 0xBF"
  proof (cases "k = 1")
    case True
    with ok utf8_lead_range [OF lead] show ?thesis by (auto simp: cont_ok_def byte_in_def)
  next
    case False
    then have "k - 1 \<in> {1..<n - 1}" using assms by auto
    with ok show ?thesis unfolding cont_ok_def by blast
  qed
  with Cons assms show ?thesis by (simp add: byte_in_def is_cont_def)
qed

lemma valid_utf8_Nil [simp]: "valid_utf8 []"
  by (simp add: valid_utf8.simps)

lemma valid_utf8_nonempty:
  assumes "s \<noteq> []"
  shows "valid_utf8 s \<longleftrightarrow> (\<exists>n. utf8_first s = Some n \<and> valid_utf8 (drop n s))"
proof -
  have "valid_utf8 s = (case utf8_first s of None \<Rightarrow> False | Some n \<Rightarrow> valid_utf8 (drop n s))"
    using assms by (subst valid_utf8.simps) (simp split: list.split del: utf8_first.simps)
  then show ?thesis by (simp split: option.splits del: utf8_first.simps)
qed

text \<open>Induction over a well-formed string, one encoded character at a time.\<close>

lemma valid_utf8_induct [consumes 1, case_names Nil Char]:
  assumes "valid_utf8 s"
    and "P []"
    and "\<And>s n. s \<noteq> [] \<Longrightarrow> utf8_first s = Some n \<Longrightarrow> valid_utf8 (drop n s) \<Longrightarrow>
           P (drop n s) \<Longrightarrow> P s"
  shows "P s"
  using assms(1)
proof (induction s rule: valid_utf8.induct)
  case (1 s)
  show ?case
  proof (cases "s = []")
    case True
    with assms(2) show ?thesis by simp
  next
    case False
    with "1.prems" obtain n where n: "utf8_first s = Some n" and v: "valid_utf8 (drop n s)"
      by (auto simp: valid_utf8_nonempty)
    from False obtain b r where s: "s = b # r" by (cases s) auto
    have "P (drop n s)" by (rule "1.IH" [OF s n v])
    with False n v show ?thesis by (rule assms(3))
  qed
qed

lemma valid_utf8_ascii_Cons [simp]:
  "is_ascii b \<Longrightarrow> valid_utf8 (b # s) = valid_utf8 s"
  by (simp add: valid_utf8_nonempty)

lemma valid_utf8_first_take:
  "utf8_first s = Some n \<Longrightarrow> valid_utf8 (take n s)"
proof -
  assume u: "utf8_first s = Some n"
  then have "utf8_first (take n s) = Some n" by (rule utf8_first_take)
  moreover have "take n s \<noteq> []" using u utf8_first_range [of s n] by auto
  ultimately show ?thesis using utf8_first_range [of s n] u
    by (auto simp: valid_utf8_nonempty)
qed

lemma valid_utf8_append:
  "valid_utf8 xs \<Longrightarrow> valid_utf8 ys \<Longrightarrow> valid_utf8 (xs @ ys)"
proof (induction xs rule: valid_utf8.induct)
  case (1 s)
  show ?case
  proof (cases "s = []")
    case True
    with "1.prems" show ?thesis by simp
  next
    case False
    with "1.prems" obtain n where n: "utf8_first s = Some n" and v: "valid_utf8 (drop n s)"
      by (auto simp: valid_utf8_nonempty)
    have "valid_utf8 (drop n s @ ys)"
      using "1.IH" False n v "1.prems"(2) by (cases s) auto
    moreover have "drop n (s @ ys) = drop n s @ ys"
      using utf8_first_range [OF n] by simp
    ultimately show ?thesis using False utf8_first_append [OF n]
      by (auto simp: valid_utf8_nonempty)
  qed
qed

lemma boundary_0 [simp]: "is_char_boundary s 0"
  by (simp add: is_char_boundary_def)

lemma boundary_length [simp]: "is_char_boundary s (length s)"
  by (simp add: is_char_boundary_def)

lemma boundary_le_length: "is_char_boundary s i \<Longrightarrow> i \<le> length s"
  by (auto simp: is_char_boundary_def slice_get_def split: if_splits)

lemma boundary_nth:
  "i < length s \<Longrightarrow> is_char_boundary s i \<longleftrightarrow> i = 0 \<or> \<not> is_cont (s ! i)"
  by (simp add: is_char_boundary_def)

lemma boundary_ascii:
  "i < length s \<Longrightarrow> is_ascii (s ! i) \<Longrightarrow> is_char_boundary s i"
  by (simp add: boundary_nth is_ascii_def is_cont_def)

lemma boundary_drop:
  "is_char_boundary s i \<Longrightarrow> n \<le> i \<Longrightarrow> is_char_boundary (drop n s) (i - n)"
  by (auto simp: is_char_boundary_def slice_get_def split: if_splits)

lemma boundary_append:
  "0 < i \<Longrightarrow> is_char_boundary (xs @ ys) (length xs + i) \<longleftrightarrow> is_char_boundary ys i"
  by (auto simp: is_char_boundary_def slice_get_def nth_append split: if_splits)

lemma valid_utf8_boundary_split:
  "valid_utf8 s \<Longrightarrow> is_char_boundary s i \<Longrightarrow> valid_utf8 (take i s) \<and> valid_utf8 (drop i s)"
proof (induction s arbitrary: i rule: valid_utf8.induct)
  case (1 s)
  show ?case
  proof (cases "s = [] \<or> i = 0")
    case True
    with "1.prems" show ?thesis by auto
  next
    case False
    with "1.prems" obtain n where n: "utf8_first s = Some n" and v: "valid_utf8 (drop n s)"
      by (auto simp: valid_utf8_nonempty)
    have r: "1 \<le> n" "n \<le> length s" using utf8_first_range [OF n] by auto
    have "n \<le> i"
    proof (rule ccontr)
      assume "\<not> n \<le> i"
      then have "is_cont (s ! i)" using False n by (auto intro: utf8_first_cont)
      with False r \<open>\<not> n \<le> i\<close> "1.prems"(2) show False by (simp add: boundary_nth)
    qed
    have b: "is_char_boundary (drop n s) (i - n)"
      using "1.prems"(2) \<open>n \<le> i\<close> by (rule boundary_drop)
    have IH: "valid_utf8 (take (i - n) (drop n s)) \<and> valid_utf8 (drop (i - n) (drop n s))"
      using "1.IH" False n v b by (cases s) auto
    have "take i s = take n s @ take (i - n) (drop n s)"
      using \<open>n \<le> i\<close> take_add [of n "i - n" s] by simp
    moreover have "drop i s = drop (i - n) (drop n s)"
      using \<open>n \<le> i\<close> by simp
    ultimately show ?thesis
      using IH valid_utf8_first_take [OF n] valid_utf8_append by auto
  qed
qed

lemma valid_utf8_after_ascii:
  assumes "valid_utf8 s" and "Suc i < length s" and "is_ascii (s ! i)"
  shows "\<not> is_cont (s ! Suc i)"
  using assms
proof (induction s arbitrary: i rule: valid_utf8.induct)
  case (1 s)
  from "1.prems" have ne: "s \<noteq> []" by auto
  with "1.prems"(1) obtain n where n: "utf8_first s = Some n" and v: "valid_utf8 (drop n s)"
    by (auto simp: valid_utf8_nonempty)
  have r: "1 \<le> n" "n \<le> length s" using utf8_first_range [OF n] by auto
  show ?case
  proof (cases "i < n")
    case True
    have "i = 0"
    proof (rule ccontr)
      assume "i \<noteq> 0"
      then have "is_cont (s ! i)" using True n by (auto intro: utf8_first_cont)
      with "1.prems"(3) show False by (simp add: is_cont_def is_ascii_def)
    qed
    with "1.prems"(3) n ne have "n = 1"
      by (cases s) (auto dest: utf8_first_lead)
    have "drop 1 s \<noteq> []" using "1.prems"(2) by simp
    with v \<open>n = 1\<close> obtain m where "utf8_first (drop 1 s) = Some m" 
      by (auto simp: valid_utf8_nonempty)
    then have "\<not> is_cont (hd (drop 1 s))"
      by (cases "drop 1 s") (auto dest: utf8_first_lead)
    with \<open>i = 0\<close> "1.prems"(2) show ?thesis by (simp add: hd_drop_conv_nth)
  next
    case False
    have IH: "\<And>j. Suc j < length (drop n s) \<Longrightarrow> is_ascii (drop n s ! j) \<Longrightarrow>
                \<not> is_cont (drop n s ! Suc j)"
      using "1.IH" ne n v by (cases s) auto
    have "\<not> is_cont (drop n s ! Suc (i - n))"
      using IH [of "i - n"] "1.prems" False r by (simp add: Suc_diff_le)
    with False r show ?thesis by (simp add: Suc_diff_le)
  qed
qed

lemma boundary_after_ascii:
  assumes "valid_utf8 s" and "i < length s" and "is_ascii (s ! i)"
  shows "is_char_boundary s (Suc i)"
proof (cases "Suc i < length s")
  case True
  with assms show ?thesis by (simp add: boundary_nth valid_utf8_after_ascii)
next
  case False
  with assms(2) have "Suc i = length s" by simp
  then show ?thesis by simp
qed

subsection \<open>Facts on decoding\<close>

lemma cont_at_append:
  "k < length r \<Longrightarrow> cont_at (r @ t) k = cont_at r k"
  by (simp add: cont_at_def nth_append)

lemma next_code_point_ascii [simp]:
  "is_ascii b \<Longrightarrow> next_code_point (b # r) = Some (of_char b, r)"
  by (simp add: is_ascii_def next_code_point.simps(2))

lemma next_code_point_first:
  assumes "utf8_first s = Some n"
  shows "\<exists>c. next_code_point s = Some (c, drop n s) \<and> next_code_point (s @ t) = Some (c, drop n s @ t)"
proof (cases s)
  case Nil
  with assms show ?thesis by simp
next
  case (Cons b r)
  show ?thesis
  proof (cases "of_char b < (0x80::nat)")
    case True
    with assms Cons show ?thesis
      by (auto simp: utf8_first_Cons_Some is_ascii_def next_code_point.simps(2))
  next
    case False
    with assms Cons obtain lo hi where
      l: "utf8_lead (of_char b) = Some (n, lo, hi)" and ok: "cont_ok r lo hi n"
      by (auto simp: utf8_first_Cons_Some)
    have n: "2 \<le> n" "n \<le> 4" "n - 1 \<le> length r"
      using utf8_lead_range [OF l] cont_ok_length [OF ok] by auto
    have ca: "\<And>k. k < n - 1 \<Longrightarrow> cont_at (r @ t) k = cont_at r k"
      using n by (simp add: cont_at_append)
    have x: "n = 2 \<longleftrightarrow> of_char b < (0xE0::nat)" "n = 3 \<longleftrightarrow> (0xE0::nat) \<le> of_char b \<and> of_char b < (0xF0::nat)"
      using l by (auto simp: utf8_lead_def split: if_splits)
    consider "n = 2" | "n = 3" | "n = 4" using n by linarith
    then show ?thesis
    proof cases
      case 1
      with x False Cons n ca [of 0] show ?thesis by (simp add: Let_def next_code_point.simps(2))
    next
      case 2
      with x False Cons n ca [of 0] ca [of 1] show ?thesis
        by (simp add: Let_def next_code_point.simps(2))
    next
      case 3
      with x False Cons n ca [of 0] ca [of 1] ca [of 2] show ?thesis
        by (simp add: Let_def next_code_point.simps(2))
    qed
  qed
qed

lemma next_code_point_None [simp]: "next_code_point s = None \<longleftrightarrow> s = []"
  by (cases s) (auto simp: Let_def next_code_point.simps(2))

lemma chars_Nil [simp]: "chars [] = []"
  by (simp add: chars.simps)

lemma chars_ascii_Cons [simp]:
  "is_ascii b \<Longrightarrow> chars (b # s) = of_char b # chars s"
  by (simp add: chars.simps [of "b # s"])

lemma chars_eq_Nil_iff [simp]: "chars s = [] \<longleftrightarrow> s = []"
  by (subst chars.simps) (auto split: option.splits)

lemma chars_append:
  "valid_utf8 xs \<Longrightarrow> chars (xs @ ys) = chars xs @ chars ys"
proof (induction xs rule: valid_utf8.induct)
  case (1 s)
  show ?case
  proof (cases "s = []")
    case True
    then show ?thesis by simp
  next
    case False
    with "1.prems" obtain n where n: "utf8_first s = Some n" and v: "valid_utf8 (drop n s)"
      by (auto simp: valid_utf8_nonempty)
    obtain c where c: "next_code_point s = Some (c, drop n s)"
      and ct: "next_code_point (s @ ys) = Some (c, drop n s @ ys)"
      using next_code_point_first [OF n] by blast
    have IH: "chars (drop n s @ ys) = chars (drop n s) @ chars ys"
      using "1.IH" False n v by (cases s) auto
    show ?thesis
      by (simp add: chars.simps [of "s @ ys"] chars.simps [of s] c ct IH)
  qed
qed

lemma last_char_eq: "last_char s = (if s = [] then None else Some (last (chars s)))"
  by (simp add: last_char_def split: list.split)

lemma last_char_append:
  "valid_utf8 xs \<Longrightarrow> ys \<noteq> [] \<Longrightarrow> last_char (xs @ ys) = last_char ys"
  by (simp add: last_char_eq chars_append)

lemma last_char_snoc_ascii:
  "valid_utf8 xs \<Longrightarrow> is_ascii b \<Longrightarrow> last_char (xs @ [b]) = Some (of_char b)"
  by (simp add: last_char_append) (simp add: last_char_def)

text \<open>A multi-byte character decodes to a code point above the ASCII range.\<close>

lemma next_code_point_lower:
  assumes "next_code_point (b # t) = Some (c, r)" and "\<not> of_char b < (0x80::nat)"
  shows "(if of_char b < (0xE0::nat) then of_char b mod 32 * 64
          else if of_char b < (0xF0::nat) then of_char b mod 32 * 4096 + cont_at t 0 * 64
          else of_char b mod 32 mod 8 * 262144 + cont_at t 0 * 4096) \<le> c"
  using assms by (auto simp: Let_def next_code_point.simps(2) split: if_splits)

lemma next_code_point_multibyte:
  assumes "utf8_first s = Some n" and "2 \<le> n" and "next_code_point s = Some (c, r)"
  shows "0x80 \<le> c"
proof (cases s)
  case Nil
  with assms show ?thesis by simp
next
  case (Cons b t)
  with assms obtain lo hi where
    l: "utf8_lead (of_char b) = Some (n, lo, hi)" and ok: "cont_ok t lo hi n"
    and nasc: "\<not> of_char b < (0x80::nat)"
    by (auto simp: utf8_first_Cons_Some)
  define x where "x = (of_char b :: nat)"
  have "next_code_point (b # t) = Some (c, r)" using assms(3) Cons by simp
  from next_code_point_lower [OF this nasc]
  have low: "(if x < 0xE0 then x mod 32 * 64 else if x < 0xF0 then x mod 32 * 4096 + cont_at t 0 * 64
              else x mod 32 mod 8 * 262144 + cont_at t 0 * 4096) \<le> c"
    unfolding x_def .
  have y: "lo \<le> of_char (t ! 0)" "of_char (t ! 0) \<le> hi" "0 < length t"
    using ok by (auto simp: cont_ok_def byte_in_def)
  have "x < 256" by (simp add: x_def)
  then consider
      "0xC2 \<le> x \<and> x \<le> 0xDF"
    | "x = 0xE0" "lo = 0xA0" "hi = 0xBF"
    | "0xE1 \<le> x \<and> x \<le> 0xEF"
    | "x = 0xF0" "lo = 0x90" "hi = 0xBF"
    | "0xF1 \<le> x \<and> x \<le> 0xF4"
    using l unfolding x_def [symmetric] by (auto simp: utf8_lead_def split: if_splits)
  then show ?thesis
  proof cases
    case 1
    then have "2 \<le> x mod 32" using mod_in_block [of 6 32 x] by (simp, linarith)
    with 1 low show ?thesis by simp
  next
    case 2
    with y have "160 \<le> (of_char (t ! 0)::nat) \<and> (of_char (t ! 0)::nat) \<le> 191" by simp
    then have "32 \<le> (of_char (t ! 0)::nat) mod 64"
      using mod_in_block [of 2 64 "of_char (t ! 0)"] by (simp, linarith)
    with y have "32 \<le> cont_at t 0" by (simp add: cont_at_def)
    with 2 low show ?thesis by simp
  next
    case 3
    then have "1 \<le> x mod 32" "0xE0 \<le> x" "x < 0xF0"
      using mod_in_block [of 7 32 x] by (simp, linarith)+
    with low show ?thesis by simp
  next
    case 4
    with y have "144 \<le> (of_char (t ! 0)::nat) \<and> (of_char (t ! 0)::nat) \<le> 191" by simp
    then have "16 \<le> (of_char (t ! 0)::nat) mod 64"
      using mod_in_block [of 2 64 "of_char (t ! 0)"] by (simp, linarith)
    with y have "16 \<le> cont_at t 0" by (simp add: cont_at_def)
    with 4 low show ?thesis by simp
  next
    case 5
    then have "x = 241 \<or> x = 242 \<or> x = 243 \<or> x = 244" by auto
    then have m: "1 \<le> x mod 32 mod 8" and ge: "\<not> x < 0xE0" "\<not> x < 0xF0" by auto
    from low ge have "x mod 32 mod 8 * 262144 \<le> c" by simp
    with m show ?thesis by linarith
  qed
qed

lemma last_char_Nil [simp]: "last_char [] = None"
  by (simp add: last_char_def)

lemma last_char_ascii_last:
  assumes "valid_utf8 s" and "last_char s = Some c" and "c < 0x80"
  shows "s \<noteq> [] \<and> of_char (last s) = c"
  using assms
proof (induction s rule: valid_utf8_induct)
  case Nil
  then show ?case by simp
next
  case (Char s n)
  have r: "1 \<le> n" "n \<le> length s" using utf8_first_range [OF Char.hyps(2)] by auto
  show ?case
  proof (cases "drop n s = []")
    case False
    have "last_char (take n s @ drop n s) = last_char (drop n s)"
      by (rule last_char_append [OF valid_utf8_first_take [OF Char.hyps(2)] False])
    then have "last_char (drop n s) = Some c" using Char.prems(1) by simp
    with Char.IH Char.prems(2) have "of_char (last (drop n s)) = c" by blast
    moreover have "last s = last (drop n s)"
      using False last_appendR [of "drop n s" "take n s"] by simp
    ultimately show ?thesis using Char.hyps(1) by simp
  next
    case True
    obtain c0 where c0: "next_code_point s = Some (c0, drop n s)"
      using next_code_point_first [OF Char.hyps(2)] by blast
    have "chars s = [c0]" using True c0 by (simp add: chars.simps [of s])
    with Char.prems(1) have "c = c0" by (simp add: last_char_def)
    have "n = 1"
    proof (rule ccontr)
      assume "n \<noteq> 1"
      with r have two: "2 \<le> n" by simp
      have "0x80 \<le> c0" by (rule next_code_point_multibyte [OF Char.hyps(2) two c0])
      with \<open>c = c0\<close> Char.prems(2) show False by simp
    qed
    then obtain b where s: "s = [b]" using True r by (cases s) auto
    with Char.hyps(2) \<open>n = 1\<close> have "is_ascii b" by (auto dest: utf8_first_lead)
    with s c0 \<open>c = c0\<close> show ?thesis by simp
  qed
qed

lemma trim_start_Nil [simp]: "trim_start [] = []"
  by (simp add: trim_start.simps)

lemma trim_start_ascii_Cons:
  "is_ascii b \<Longrightarrow> trim_start (b # s) = (if is_whitespace (of_char b) then trim_start s else b # s)"
  by (simp add: trim_start.simps [of "b # s"])

lemma chars_trim_start: "chars (trim_start s) = dropWhile is_whitespace (chars s)"
proof (induction s rule: trim_start.induct)
  case (1 s)
  show ?case
  proof (cases "next_code_point s")
    case None
    then show ?thesis by (simp add: trim_start.simps [of s])
  next
    case (Some cr)
    then obtain c r where cr: "next_code_point s = Some (c, r)" by (cases cr) auto
    then have ch: "chars s = c # chars r" by (simp add: chars.simps [of s])
    show ?thesis
      using "1.IH" [OF cr] cr ch by (simp add: trim_start.simps [of s])
  qed
qed

lemma trim_end_Nil [simp]: "trim_end [] = []"
  by (simp add: trim_end.simps)

lemma trim_end_Nil_iff: "trim_end s = [] \<longleftrightarrow> list_all is_whitespace (chars s)"
proof (induction s rule: trim_end.induct)
  case (1 s)
  show ?case
  proof (cases "next_code_point s")
    case None
    then show ?thesis by (simp add: trim_end.simps [of s])
  next
    case (Some cr)
    then obtain c r where cr: "next_code_point s = Some (c, r)" by (cases cr) auto
    then have ch: "chars s = c # chars r" by (simp add: chars.simps [of s])
    have "length r < length s" using cr by (rule next_code_point_shorter)
    then have "take (length s - length r) s \<noteq> []" by (cases s) auto
    then show ?thesis
      using "1.IH" [OF cr refl] cr ch by (auto simp: trim_end.simps [of s] Let_def)
  qed
qed

lemma trim_Nil_iff: "trim s = [] \<longleftrightarrow> list_all is_whitespace (chars s)"
proof -
  have "list_all is_whitespace (dropWhile is_whitespace cs) \<longleftrightarrow> list_all is_whitespace cs" for cs
    by (induction cs) auto
  then show ?thesis by (simp add: trim_def trim_end_Nil_iff chars_trim_start)
qed

lemma trim_start_append_ws:
  "valid_utf8 xs \<Longrightarrow> list_all is_whitespace (chars xs) \<Longrightarrow> trim_start (xs @ ys) = trim_start ys"
proof (induction xs rule: valid_utf8.induct)
  case (1 s)
  show ?case
  proof (cases "s = []")
    case True
    then show ?thesis by simp
  next
    case False
    with "1.prems" obtain n where n: "utf8_first s = Some n" and v: "valid_utf8 (drop n s)"
      by (auto simp: valid_utf8_nonempty)
    obtain c where c: "next_code_point s = Some (c, drop n s)"
      and ct: "next_code_point (s @ ys) = Some (c, drop n s @ ys)"
      using next_code_point_first [OF n] by blast
    have ch: "chars s = c # chars (drop n s)" using c by (simp add: chars.simps [of s])
    have IH: "list_all is_whitespace (chars (drop n s)) \<Longrightarrow>
                trim_start (drop n s @ ys) = trim_start ys"
      using "1.IH" False n v by (cases s) auto
    show ?thesis using "1.prems"(2) ch ct IH by (simp add: trim_start.simps [of "s @ ys"])
  qed
qed

lemma trim_start_append:
  "valid_utf8 xs \<Longrightarrow> \<not> list_all is_whitespace (chars xs) \<Longrightarrow>
     trim_start (xs @ ys) = trim_start xs @ ys"
proof (induction xs rule: valid_utf8.induct)
  case (1 s)
  show ?case
  proof (cases "s = []")
    case True
    with "1.prems" show ?thesis by simp
  next
    case False
    with "1.prems" obtain n where n: "utf8_first s = Some n" and v: "valid_utf8 (drop n s)"
      by (auto simp: valid_utf8_nonempty)
    obtain c where c: "next_code_point s = Some (c, drop n s)"
      and ct: "next_code_point (s @ ys) = Some (c, drop n s @ ys)"
      using next_code_point_first [OF n] by blast
    have ch: "chars s = c # chars (drop n s)" using c by (simp add: chars.simps [of s])
    have IH: "\<not> list_all is_whitespace (chars (drop n s)) \<Longrightarrow>
                trim_start (drop n s @ ys) = trim_start (drop n s) @ ys"
      using "1.IH" False n v by (cases s) auto
    show ?thesis using "1.prems"(2) ch c ct IH
      by (simp add: trim_start.simps [of "s @ ys"] trim_start.simps [of s])
  qed
qed

lemma trim_start_nonblank:
  assumes "\<not> list_all is_whitespace (chars s)"
  shows "trim_start s \<noteq> []"
proof
  assume "trim_start s = []"
  then have "dropWhile is_whitespace (chars s) = []" using chars_trim_start [of s] by simp
  with assms show False by (simp add: dropWhile_eq_Nil_conv list_all_iff)
qed

subsection \<open>Facts on slicing\<close>

lemma str_slice_ok [simp]:
  "a \<le> b \<Longrightarrow> is_char_boundary s a \<Longrightarrow> is_char_boundary s b \<Longrightarrow>
     str_slice s a b = Inr (take (b - a) (drop a s))"
  by (simp add: str_slice_def)

lemma str_slice_Inr:
  "str_slice s a b = Inr t \<Longrightarrow>
     a \<le> b \<and> b \<le> length s \<and> is_char_boundary s a \<and> is_char_boundary s b \<and>
     t = take (b - a) (drop a s)"
  by (auto simp: str_slice_def boundary_le_length split: if_splits)

lemma str_to_ok [simp]:
  "is_char_boundary s b \<Longrightarrow> str_to s b = Inr (take b s)"
  by (simp add: str_to_def)

lemma str_from_ok [simp]:
  "is_char_boundary s a \<Longrightarrow> str_from s a = Inr (drop a s)"
  by (simp add: str_from_def boundary_le_length)

lemma str_to_out_of_bounds:
  "length s < b \<Longrightarrow> str_to s b = Inl Slice_out_of_bounds"
  by (auto simp: str_to_def str_slice_def dest: boundary_le_length)

lemma str_from_Inr:
  "str_from s a = Inr t \<Longrightarrow> a \<le> length s \<and> is_char_boundary s a \<and> t = drop a s"
  by (auto simp: str_from_def dest: str_slice_Inr)

lemma str_to_Inr:
  "str_to s b = Inr t \<Longrightarrow> b \<le> length s \<and> is_char_boundary s b \<and> t = take b s"
  by (auto simp: str_to_def dest: str_slice_Inr)

subsection \<open>Facts on searching\<close>

lemma starts_with_single: "starts_with s [b] \<longleftrightarrow> s \<noteq> [] \<and> hd s = b"
  by (cases s) (auto simp: starts_with_def)

lemma starts_with_Cons_iff:
  "p \<noteq> [] \<Longrightarrow> starts_with s p \<longleftrightarrow> s \<noteq> [] \<and> hd s = hd p \<and> starts_with (tl s) (tl p)"
  by (cases s; cases p) (auto simp: starts_with_def)

lemma str_find_Some:
  "str_find s p = Some i \<Longrightarrow>
     starts_with (drop i s) p \<and> (\<forall>j < i. \<not> starts_with (drop j s) p) \<and> i \<le> length s"
proof (induction s arbitrary: i)
  case Nil
  then show ?case by (simp add: starts_with_def split: if_splits)
next
  case (Cons b s)
  then show ?case
    by (cases i) (auto split: if_splits simp: less_Suc_eq_0_disj)
qed

lemma str_find_None:
  "str_find s p = None \<Longrightarrow> \<not> starts_with (drop j s) p"
proof (induction s arbitrary: j)
  case Nil
  then show ?case by (simp add: starts_with_def split: if_splits)
next
  case (Cons b s)
  then show ?case by (cases j) (auto split: if_splits)
qed

lemma str_find_first:
  "starts_with (drop j s) p \<Longrightarrow> (\<forall>k < j. \<not> starts_with (drop k s) p) \<Longrightarrow> str_find s p = Some j"
proof (induction s arbitrary: j)
  case Nil
  then show ?case by (cases j) (auto simp: starts_with_def)
next
  case (Cons b s)
  show ?case
  proof (cases j)
    case 0
    with Cons.prems show ?thesis by simp
  next
    case (Suc k)
    have "\<forall>m < k. \<not> starts_with (drop m s) p"
    proof (intro allI impI)
      fix m assume "m < k"
      then have "Suc m < j" using Suc by simp
      with Cons.prems(2) show "\<not> starts_with (drop m s) p" by fastforce
    qed
    then have "str_find s p = Some k" using Cons.IH Cons.prems(1) Suc by simp
    moreover have "\<not> starts_with (b # s) p" using Cons.prems(2) Suc by fastforce
    ultimately show ?thesis using Suc by simp
  qed
qed

lemma starts_with_length:
  "starts_with s p \<Longrightarrow> length p \<le> length s"
  by (auto simp: starts_with_def dest: arg_cong [where f = length])

lemma memchr2_Some:
  "memchr2 a b s = Some i \<longleftrightarrow>
     i < length s \<and> (s ! i = a \<or> s ! i = b) \<and> (\<forall>j < i. s ! j \<noteq> a \<and> s ! j \<noteq> b)"
proof (induction s arbitrary: i)
  case Nil
  then show ?case by simp
next
  case (Cons c s)
  show ?case
  proof (cases i)
    case 0
    then show ?thesis by simp
  next
    case (Suc k)
    then show ?thesis using Cons.IH [of k] by (auto simp: less_Suc_eq_0_disj)
  qed
qed

lemma memchr2_None:
  "memchr2 a b s = None \<longleftrightarrow> a \<notin> set s \<and> b \<notin> set s"
  by (induction s) auto

lemma memchr_iter_Nil_iff:
  "memchr_iter b s = [] \<longleftrightarrow> b \<notin> set s"
  by (induction s) auto

lemma set_memchr_iter:
  "set (memchr_iter b s) = {i. i < length s \<and> s ! i = b}"
proof (induction s)
  case Nil
  then show ?case by simp
next
  case (Cons c s)
  show ?case
  proof (rule set_eqI)
    fix i
    show "i \<in> set (memchr_iter b (c # s)) \<longleftrightarrow> i \<in> {i. i < length (c # s) \<and> (c # s) ! i = b}"
      using Cons.IH by (cases i) auto
  qed
qed

end
