(* ===== verification/Find_Newline.thy ===== *)
theory Find_Newline
  imports Rust_Str
begin

text \<open>
  \<open>find_newline\<close> (\<open>src/crates/puffin-requirements/src/lib.rs\<close>): the position of the first
  line break of a text and its width, 2 for \<open>\r\n\<close> and 1 for a lone \<open>\n\<close> or
  \<open>\r\<close>. The lemmas show that it finds the first break, that the width covers exactly a
  \<open>\n\<close>, \<open>\r\n\<close> or lone \<open>\r\<close>, and how it acts on a text that starts with a
  break-free line followed by a break.
\<close>

text \<open>
  \<open>bytes.get(position.saturating_add(1))\<close>: \<open>position < len\<close>, so the addition
  does not saturate.
\<close>

definition find_newline :: "str \<Rightarrow> (nat \<times> nat) option" where
  "find_newline text =
    (case memchr2 LF CR text of
       None \<Rightarrow> None
     | Some position \<Rightarrow>
         (let newline_character = text ! position in
          Some (if newline_character = LF then (position, 1)
                else if newline_character = CR \<and> slice_get text (position + 1) = Some LF
                then (position, 2)
                else (position, 1))))"

definition is_break :: "byte \<Rightarrow> bool" where
  "is_break b \<longleftrightarrow> b = LF \<or> b = CR"

text \<open>The line-break sequences the code recognises.\<close>

definition line_break :: "str \<Rightarrow> str \<Rightarrow> bool" where
  "line_break brk rest \<longleftrightarrow> brk = [LF] \<or> brk = [CR, LF] \<or> (brk = [CR] \<and> \<not> starts_with rest [LF])"

lemma find_newline_eq:
  "find_newline text =
    (case memchr2 LF CR text of
       None \<Rightarrow> None
     | Some p \<Rightarrow> Some (p, if text ! p = CR \<and> slice_get text (p + 1) = Some LF then 2 else 1))"
  by (simp add: find_newline_def Let_def split: option.split)

lemma memchr2_breaks_append:
  "\<forall>b \<in> set l. \<not> is_break b \<Longrightarrow>
     memchr2 LF CR (l @ s) = (case memchr2 LF CR s of None \<Rightarrow> None | Some i \<Rightarrow> Some (length l + i))"
proof (induction l)
  case Nil
  then show ?case by (simp split: option.split)
next
  case (Cons b l)
  then have "b \<noteq> LF" "b \<noteq> CR" by (simp_all add: is_break_def)
  with Cons show ?case by (simp split: option.split)
qed

lemma find_newline_None:
  "find_newline text = None \<longleftrightarrow> (\<forall>b \<in> set text. \<not> is_break b)"
proof -
  have "find_newline text = None \<longleftrightarrow> memchr2 LF CR text = None"
    by (simp add: find_newline_eq split: option.split)
  also have "\<dots> \<longleftrightarrow> LF \<notin> set text \<and> CR \<notin> set text"
    by (rule memchr2_None)
  also have "\<dots> \<longleftrightarrow> (\<forall>b \<in> set text. \<not> is_break b)"
    by (auto simp: is_break_def)
  finally show ?thesis .
qed

lemma find_newline_Some:
  assumes "find_newline text = Some (p, w)"
  shows "p < length text \<and> is_break (text ! p) \<and> (\<forall>j < p. \<not> is_break (text ! j)) \<and>
         w = (if text ! p = CR \<and> p + 1 < length text \<and> text ! (p + 1) = LF then 2 else 1)"
proof -
  have "memchr2 LF CR text \<noteq> None" using assms by (auto simp: find_newline_eq split: option.splits)
  then obtain q where q: "memchr2 LF CR text = Some q" by blast
  from assms q have p: "p = q" and w: "w = (if text ! q = CR \<and> slice_get text (q + 1) = Some LF then 2 else 1)"
    by (auto simp: find_newline_eq split: if_splits)
  have m: "q < length text \<and> (text ! q = LF \<or> text ! q = CR) \<and>
                  (\<forall>j < q. text ! j \<noteq> LF \<and> text ! j \<noteq> CR)"
    using q memchr2_Some [of LF CR "text" q] by blast
  have "slice_get text (q + 1) = Some LF \<longleftrightarrow> q + 1 < length text \<and> text ! (q + 1) = LF"
    by (simp add: slice_get_def)
  with m p w show ?thesis by (simp add: is_break_def)
qed

lemma find_newline_bound:
  "find_newline text = Some (p, w) \<Longrightarrow> 1 \<le> w \<and> p + w \<le> length text"
  by (drule find_newline_Some) (auto split: if_splits)

text \<open>
  The decomposition that the iterator relies on: the text is the line, the break, and the
  rest; the line holds no break byte.
\<close>

lemma find_newline_split:
  assumes "find_newline text = Some (p, w)"
  shows "text = take p text @ take w (drop p text) @ drop (p + w) text \<and>
         (\<forall>b \<in> set (take p text). \<not> is_break b) \<and>
         line_break (take w (drop p text)) (drop (p + w) text)"
proof -
  note f = find_newline_Some [OF assms]
  have parts: "text = take p text @ take w (drop p text) @ drop (p + w) text"
    by (metis append_take_drop_id drop_drop add.commute)
  have nob: "\<forall>b \<in> set (take p text). \<not> is_break b"
    using f by (auto simp: in_set_conv_nth)
  have "line_break (take w (drop p text)) (drop (p + w) text)"
  proof (cases "text ! p = CR \<and> p + 1 < length text \<and> text ! (p + 1) = LF")
    case True
    with f have "w = Suc (Suc 0)" by simp
    moreover have "take (Suc (Suc 0)) (drop p text) = [CR, LF]"
      using True f by (simp add: take_Suc_drop_nth)
    ultimately show ?thesis by (simp add: line_break_def)
  next
    case False
    with f have w: "w = Suc 0" by auto
    have pl: "p < length text" using f by blast
    have tk: "take w (drop p text) = [text ! p]" using pl by (simp add: w take_Suc_drop_nth)
    have "\<not> starts_with (drop (p + w) text) [LF]" if "text ! p = CR"
    proof
      assume "starts_with (drop (p + w) text) [LF]"
      then have "p + 1 < length text" "text ! (p + 1) = LF"
        by (auto simp: w starts_with_single hd_drop_conv_nth)
      with False that show False by simp
    qed
    moreover have "is_break (text ! p)" using f by blast
    ultimately show ?thesis using tk by (auto simp: line_break_def is_break_def)
  qed
  with parts nob show ?thesis by blast
qed

lemma line_break_width:
  "line_break brk rest \<Longrightarrow> brk \<noteq> [] \<and> length brk \<le> 2 \<and> (\<forall>b \<in> set brk. is_break b \<and> is_ascii b)"
  by (auto simp: line_break_def is_break_def is_ascii_def)

text \<open>Conversely, on a line followed by a break, \<open>find_newline\<close> finds exactly that break.\<close>

lemma find_newline_line:
  assumes "\<forall>b \<in> set l. \<not> is_break b" and "line_break brk rest"
  shows "find_newline (l @ brk @ rest) = Some (length l, length brk)"
proof -
  have "memchr2 LF CR (brk @ rest) = Some 0" using assms(2) by (auto simp: line_break_def)
  then have m: "memchr2 LF CR (l @ brk @ rest) = Some (length l)"
    by (simp add: memchr2_breaks_append [OF assms(1)] del: append_assoc)
  have "(if (l @ brk @ rest) ! length l = CR \<and> slice_get (l @ brk @ rest) (length l + 1) = Some LF
         then 2 else 1) = length brk"
    using assms(2) by (auto simp: line_break_def slice_get_def nth_append starts_with_single hd_conv_nth)
  with m show ?thesis by (simp add: find_newline_eq)
qed

lemma find_newline_no_break:
  "\<forall>b \<in> set l. \<not> is_break b \<Longrightarrow> find_newline l = None"
  by (simp add: find_newline_None)

subsection \<open>Properties\<close>

text \<open>
  C12: \<open>find_newline\<close> returns the offset of the first \<open>\n\<close> or \<open>\r\<close> of the text,
  with width 2 exactly when that byte is a \<open>\r\<close> followed by \<open>\n\<close>, and width 1
  otherwise (a \<open>\n\<close>, or a lone \<open>\r\<close>, also at the very end).
\<close>

theorem find_newline_first_break:
  "find_newline text = Some (p, w) \<longleftrightarrow>
     p < length text \<and> is_break (text ! p) \<and> (\<forall>j < p. \<not> is_break (text ! j)) \<and>
     w = (if text ! p = CR \<and> p + 1 < length text \<and> text ! (p + 1) = LF then 2 else 1)"
proof
  assume "find_newline text = Some (p, w)"
  then show "p < length text \<and> is_break (text ! p) \<and> (\<forall>j < p. \<not> is_break (text ! j)) \<and>
     w = (if text ! p = CR \<and> p + 1 < length text \<and> text ! (p + 1) = LF then 2 else 1)"
    by (rule find_newline_Some)
next
  assume a: "p < length text \<and> is_break (text ! p) \<and> (\<forall>j < p. \<not> is_break (text ! j)) \<and>
     w = (if text ! p = CR \<and> p + 1 < length text \<and> text ! (p + 1) = LF then 2 else 1)"
  then have "memchr2 LF CR text = Some p" by (simp add: memchr2_Some is_break_def)
  moreover have "slice_get text (p + 1) = Some LF \<longleftrightarrow> p + 1 < length text \<and> text ! (p + 1) = LF"
    by (simp add: slice_get_def)
  ultimately show "find_newline text = Some (p, w)" using a by (simp add: find_newline_eq)
qed

theorem find_newline_first_break_witness:
  "find_newline [CHR ''a'', CR, LF, CHR ''b''] = Some (1, 2) \<and>
   find_newline [CHR ''a'', CR, CR, LF] = Some (1, 1)"
proof -
  have "find_newline [CHR ''a'', CR, LF, CHR ''b''] = Some (1, 2)"
    using find_newline_first_break [of "[CHR ''a'', CR, LF, CHR ''b'']" 1 2]
    by (simp add: is_break_def)
  moreover have "find_newline [CHR ''a'', CR, CR, LF] = Some (1, 1)"
    using find_newline_first_break [of "[CHR ''a'', CR, CR, LF]" 1 1]
    by (simp add: is_break_def)
  ultimately show ?thesis by blast
qed

end
