(* ===== verification/Trivia.thy ===== *)
theory Trivia
  imports Rust_Str
begin

text \<open>
  The trivia stripper of \<open>src/crates/puffin-requirements/src/lib.rs\<close>:
  \<open>RequirementLine\<close> (a logical line, borrowed or owned as a \<open>Cow\<close>, with the length of its
  requirement part), \<open>RequirementLine::from_line\<close>, \<open>as_str\<close> and
  \<open>strip_trivia\<close>. \<open>strip_trivia\<close> is modelled as written: the comment loop slices
  \<open>requirement[..len + position]\<close>, where \<open>len\<close> is still the full length, so every
  \<open>#\<close> after the first byte makes the slice run past the end and the slice panics.
  The lemmas give its closed form, the exact condition under which it panics, its result on
  lines without \<open>#\<close> (the first \<open>--hash\<close> or the whole line), that the result is a
  char boundary within the line (so \<open>as_str\<close> never panics), and that stripping is
  idempotent.
\<close>

datatype cow = Borrowed str | Owned str

text \<open>\<open>Deref\<close> of \<open>Cow<str>\<close>.\<close>

primrec cow_str :: "cow \<Rightarrow> str" where
  "cow_str (Borrowed s) = s"
| "cow_str (Owned s) = s"

record requirement_line =
  line :: cow
  len :: nat

text \<open>
  The \<open>for position in memchr_iter(b'#', ...)\<close> loop with its \<open>break\<close>; \<open>n\<close> is
  the value of \<open>len\<close> while the loop runs (it is assigned only on exit).
\<close>

fun strip_comment :: "str \<Rightarrow> nat \<Rightarrow> nat list \<Rightarrow> nat res" where
  "strip_comment requirement n [] = Inr n"
| "strip_comment requirement n (position # positions) =
    rbind (str_to requirement (n + position)) (\<lambda>prefix.
      if is_some_and is_whitespace (last_char prefix) then Inr position
      else strip_comment requirement n positions)"

definition hash_marker :: str where
  "hash_marker = ''--hash''"

definition strip_trivia :: "str \<Rightarrow> nat res" where
  "strip_trivia requirement =
    (let n = length requirement in
     rbind (str_to requirement n) (\<lambda>whole.
     rbind (strip_comment requirement n (memchr_iter HASH whole)) (\<lambda>n'.
     rbind (str_to requirement n') (\<lambda>kept.
     Inr (case str_find kept hash_marker of Some index \<Rightarrow> index | None \<Rightarrow> n')))))"

definition from_line :: "cow \<Rightarrow> requirement_line res" where
  "from_line l = rbind (strip_trivia (cow_str l)) (\<lambda>n. Inr \<lparr>line = l, len = n\<rparr>)"

definition as_str :: "requirement_line \<Rightarrow> str res" where
  "as_str r = str_to (cow_str (line r)) (len r)"

subsection \<open>Closed form\<close>

text \<open>\<open>comment_at_start r\<close>: the only case in which the comment loop truncates.\<close>

definition comment_at_start :: "str \<Rightarrow> bool" where
  "comment_at_start r \<longleftrightarrow> r \<noteq> [] \<and> hd r = HASH \<and> is_some_and is_whitespace (last_char r)"

lemma strip_comment_shifted:
  assumes "ps \<noteq> []"
  shows "strip_comment r (length r) (map Suc ps) = Inl Slice_out_of_bounds"
proof -
  obtain a qs where ps: "ps = a # qs" using assms by (cases ps) auto
  have "str_to r (length r + Suc a) = Inl Slice_out_of_bounds" by (simp add: str_to_out_of_bounds)
  with ps show ?thesis by simp
qed

lemma strip_comment_eq:
  "strip_comment r (length r) (memchr_iter HASH r) =
    (if HASH \<in> set (tl r) \<and> \<not> comment_at_start r then Inl Slice_out_of_bounds
     else if comment_at_start r then Inr 0 else Inr (length r))"
proof (cases r)
  case Nil
  then show ?thesis by (simp add: comment_at_start_def)
next
  case (Cons c s)
  have whole: "str_to r (length r) = Inr r" by simp
  have ne: "memchr_iter HASH s \<noteq> [] \<longleftrightarrow> HASH \<in> set s" by (simp add: memchr_iter_Nil_iff)
  show ?thesis
  proof (cases "c = HASH")
    case True
    then have "memchr_iter HASH r = 0 # map Suc (memchr_iter HASH s)" using Cons by simp
    then show ?thesis using True Cons ne whole strip_comment_shifted [of "memchr_iter HASH s" r]
      by (cases "memchr_iter HASH s = []") (simp_all add: comment_at_start_def)
  next
    case False
    then have "memchr_iter HASH r = map Suc (memchr_iter HASH s)" using Cons by simp
    then show ?thesis using False Cons ne strip_comment_shifted [of "memchr_iter HASH s" r]
      by (cases "memchr_iter HASH s = []") (simp_all add: comment_at_start_def)
  qed
qed

lemma strip_trivia_eq:
  "strip_trivia r =
    (if HASH \<in> set (tl r) \<and> \<not> comment_at_start r then Inl Slice_out_of_bounds
     else let n = (if comment_at_start r then 0 else length r) in
          Inr (case str_find (take n r) hash_marker of Some index \<Rightarrow> index | None \<Rightarrow> n))"
  by (simp add: strip_trivia_def strip_comment_eq Let_def)

subsection \<open>Panics\<close>

lemma strip_trivia_Inl:
  "strip_trivia r = Inl e \<longleftrightarrow>
     e = Slice_out_of_bounds \<and> HASH \<in> set (tl r) \<and> \<not> comment_at_start r"
  by (auto simp: strip_trivia_eq Let_def)

lemma strip_trivia_Inr_cases:
  assumes "strip_trivia r = Inr n"
  obtains (whole) "str_find r hash_marker = None" "n = length r" "\<not> comment_at_start r"
  | (marker) "str_find r hash_marker = Some n" "\<not> comment_at_start r"
  | (comment) "n = 0" "comment_at_start r"
  using assms
  by (cases "comment_at_start r"; cases "str_find r hash_marker")
     (auto simp: strip_trivia_eq Let_def split: if_splits)

lemma hash_marker_simps [simp]: "hash_marker \<noteq> []" "hd hash_marker = CHR ''-''"
  by (simp_all add: hash_marker_def)

subsection \<open>Results\<close>

lemma no_hash_no_comment:
  "HASH \<notin> set r \<Longrightarrow> HASH \<notin> set (tl r) \<and> \<not> comment_at_start r"
  by (cases r) (auto simp: comment_at_start_def)

lemma strip_trivia_no_hash:
  "HASH \<notin> set r \<Longrightarrow>
     strip_trivia r = Inr (case str_find r hash_marker of Some index \<Rightarrow> index | None \<Rightarrow> length r)"
  by (drule no_hash_no_comment) (simp add: strip_trivia_eq)

lemma strip_trivia_le:
  "strip_trivia r = Inr n \<Longrightarrow> n \<le> length r"
  by (erule strip_trivia_Inr_cases) (auto dest: str_find_Some)

lemma marker_at_ascii:
  assumes "str_find r hash_marker = Some i"
  shows "i < length r \<and> r ! i = CHR ''-''"
proof -
  have "starts_with (drop i r) hash_marker" using str_find_Some [OF assms] by blast
  then have ne: "drop i r \<noteq> []" and h: "hd (drop i r) = CHR ''-''"
    by (simp_all add: starts_with_Cons_iff)
  from ne have i: "i < length r" by simp
  with h show ?thesis by (simp add: hd_drop_conv_nth [OF i])
qed

lemma strip_trivia_boundary:
  assumes "strip_trivia r = Inr n"
  shows "is_char_boundary r n"
  using assms
proof (cases rule: strip_trivia_Inr_cases)
  case marker
  from marker(1) have "n < length r \<and> r ! n = CHR ''-''" by (rule marker_at_ascii)
  then show ?thesis by (auto intro: boundary_ascii simp: is_ascii_def)
qed simp_all

lemma as_str_from_line:
  assumes "from_line c = Inr rl"
  shows "line rl = c \<and> len rl \<le> length (cow_str c) \<and>
         as_str rl = Inr (take (len rl) (cow_str c))"
proof -
  from assms obtain n where n: "strip_trivia (cow_str c) = Inr n" and rl: "rl = \<lparr>line = c, len = n\<rparr>"
    by (auto simp: from_line_def rbind_eq_Inr)
  show ?thesis
    using strip_trivia_le [OF n] strip_trivia_boundary [OF n] rl by (simp add: as_str_def)
qed

subsection \<open>Idempotence\<close>

lemma starts_with_drop_take:
  assumes "starts_with (drop j (take i r)) p"
  shows "starts_with (drop j r) p \<and> length p \<le> i - j"
proof -
  have d: "drop j (take i r) = take (i - j) (drop j r)" by (simp add: drop_take)
  have t: "take (length p) (take (i - j) (drop j r)) = p" using assms d by (simp add: starts_with_def)
  have "length (take (length p) (take (i - j) (drop j r))) \<le> i - j" by simp
  with t have l: "length p \<le> i - j" by simp
  then have "take (length p) (take (i - j) (drop j r)) = take (length p) (drop j r)"
    by (simp add: min_def)
  with t l show ?thesis by (simp add: starts_with_def)
qed

lemma str_find_take_first:
  assumes "str_find r p = Some i" and "p \<noteq> []"
  shows "str_find (take i r) p = None"
proof (rule ccontr)
  assume "str_find (take i r) p \<noteq> None"
  then obtain j where "str_find (take i r) p = Some j" by blast
  then have "starts_with (drop j (take i r)) p" using str_find_Some by blast
  then have sw: "starts_with (drop j r) p" and l: "length p \<le> i - j"
    using starts_with_drop_take by blast+
  have "0 < length p" using assms(2) by simp
  with l have "j < i" by linarith
  with sw show False using str_find_Some [OF assms(1)] by blast
qed

lemma strip_trivia_take_clean:
  assumes "HASH \<notin> set r" and "strip_trivia r = Inr n"
  shows "HASH \<notin> set (take n r) \<and> str_find (take n r) hash_marker = None"
proof -
  have nh: "HASH \<notin> set (take n r)" using assms(1) by (auto dest: in_set_takeD)
  from assms(2) have "str_find (take n r) hash_marker = None"
  proof (cases rule: strip_trivia_Inr_cases)
    case whole
    then show ?thesis by simp
  next
    case marker
    then show ?thesis using str_find_take_first [OF marker(1)] by simp
  next
    case comment
    with assms(1) show ?thesis by (cases r) (auto simp: comment_at_start_def)
  qed
  with nh show ?thesis by blast
qed

subsection \<open>Properties\<close>

text \<open>
  C13: \<open>strip_trivia\<close> panics (the slice \<open>requirement[..len + position]\<close> runs past the
  end) exactly when a \<open>#\<close> occurs after the first byte of the line and the line is not
  a \<open>#\<close> at its start followed by text that ends in whitespace.
\<close>

theorem strip_trivia_panics_iff:
  "(\<exists>e. strip_trivia r = Inl e) \<longleftrightarrow> HASH \<in> set (tl r) \<and> \<not> comment_at_start r"
  by (auto simp: strip_trivia_Inl)

theorem strip_trivia_panics_iff_witness:
  "(\<exists>e. strip_trivia ''pkg==1.0  # a comment'' = Inl e) \<and> \<not> (\<exists>e. strip_trivia ''pkg==1.0'' = Inl e)"
  using strip_trivia_panics_iff [of "''pkg==1.0  # a comment''"] strip_trivia_panics_iff [of "''pkg==1.0''"]
  by (simp add: comment_at_start_def)

text \<open>
  C14: on a line without \<open>#\<close>, \<open>strip_trivia\<close> returns the byte offset of the first
  \<open>--hash\<close>, wherever it occurs, or the whole length when there is none.
\<close>

theorem strip_trivia_hash_free:
  assumes "HASH \<notin> set r"
  shows "strip_trivia r = Inr (case str_find r hash_marker of Some i \<Rightarrow> i | None \<Rightarrow> length r) \<and>
         (\<forall>i. str_find r hash_marker = Some i \<longleftrightarrow>
                starts_with (drop i r) hash_marker \<and> (\<forall>j < i. \<not> starts_with (drop j r) hash_marker))"
  using strip_trivia_no_hash [OF assms] str_find_Some str_find_first by blast

theorem strip_trivia_hash_free_witness:
  "HASH \<notin> set ''pkg==1.0 --hash=sha256:ab'' \<and> strip_trivia ''pkg==1.0 --hash=sha256:ab'' = Inr 9"
proof -
  have h: "HASH \<notin> set ''pkg==1.0 --hash=sha256:ab''" by simp
  have f: "str_find ''pkg==1.0 --hash=sha256:ab'' hash_marker = Some 9"
    by (simp add: hash_marker_def starts_with_def)
  have e: "strip_trivia ''pkg==1.0 --hash=sha256:ab'' =
      Inr (case str_find ''pkg==1.0 --hash=sha256:ab'' hash_marker of Some i \<Rightarrow> i
           | None \<Rightarrow> length ''pkg==1.0 --hash=sha256:ab'')"
    using strip_trivia_hash_free [OF h] by blast
  show ?thesis using h e [unfolded f] by simp
qed

text \<open>
  C15: the clean span is within the line and on a char boundary, so \<open>as_str\<close> never
  panics: a successfully built \<open>RequirementLine\<close> yields the first \<open>len\<close> bytes.
\<close>

theorem as_str_total:
  assumes "from_line c = Inr rl"
  shows "len rl \<le> length (cow_str c) \<and> as_str rl = Inr (take (len rl) (cow_str c))"
  using as_str_from_line [OF assms] by blast

theorem as_str_total_witness:
  "from_line (Borrowed ''pkg --hash=x'') = Inr \<lparr>line = Borrowed ''pkg --hash=x'', len = 4\<rparr> \<and>
   as_str \<lparr>line = Borrowed ''pkg --hash=x'', len = 4\<rparr> = Inr ''pkg ''"
proof -
  have f: "from_line (Borrowed ''pkg --hash=x'') = Inr \<lparr>line = Borrowed ''pkg --hash=x'', len = 4\<rparr>"
    by (simp add: from_line_def strip_trivia_no_hash hash_marker_def starts_with_def)
  show ?thesis using as_str_total [OF f] f by simp
qed

text \<open>
  C16: stripping is idempotent on lines without \<open>#\<close>: the stripped text has nothing
  left to strip.
\<close>

theorem strip_trivia_idempotent:
  assumes "HASH \<notin> set r" and "strip_trivia r = Inr n"
  shows "strip_trivia (take n r) = Inr n"
proof -
  have c: "HASH \<notin> set (take n r)" "str_find (take n r) hash_marker = None"
    using strip_trivia_take_clean [OF assms] by blast+
  have "n \<le> length r" using assms(2) by (rule strip_trivia_le)
  with c show ?thesis by (simp add: strip_trivia_no_hash)
qed

theorem strip_trivia_idempotent_witness:
  "strip_trivia (take 4 ''pkg --hash=x'') = Inr 4"
proof -
  have h: "HASH \<notin> set ''pkg --hash=x''" by simp
  have s: "strip_trivia ''pkg --hash=x'' = Inr 4"
    by (simp add: strip_trivia_no_hash hash_marker_def starts_with_def)
  show ?thesis by (rule strip_trivia_idempotent [OF h s])
qed

end
