(* ===== verification/Req_Iterator.thy ===== *)
theory Req_Iterator
  imports Find_Newline Trivia
begin

text \<open>
  \<open>RequirementsIterator\<close> of \<open>src/crates/puffin-requirements/src/lib.rs\<close>: the state
  (the text and a byte cursor) as the record \<open>iter\<close>, \<open>new\<close> as \<open>iter_new\<close>, the
  continuation loop of \<open>next\<close> (the \<open>while let\<close> of lines 146--162) as \<open>eat_lines\<close>,
  and \<open>Iterator::next\<close> as \<open>iter_next\<close>, which returns the item together with the updated
  state or panics. The recursion \<open>return self.next()\<close> after a skipped line is the
  recursion of \<open>iter_next\<close>; both functions terminate because the cursor advances past a
  line break on every recursive call. The lemmas show that every item advances the cursor
  within the text, that the iterator is fused once it returns \<open>None\<close>, and that an empty
  text makes the first call panic.
\<close>

text \<open>
  The field \<open>text\<close> of the struct is \<open>text'\<close> here (\<open>text\<close> is a command of the
  theory language).
\<close>

record iter =
  text' :: str
  index :: nat

definition iter_new :: "str \<Rightarrow> iter" where
  "iter_new t = \<lparr>text' = t, index = 0\<rparr>"

text \<open>\<open>.is_some_and(|c| c == '\\')\<close>.\<close>

definition is_bslash :: "codepoint option \<Rightarrow> bool" where
  "is_bslash c = is_some_and (\<lambda>c. c = 0x5C) c"

text \<open>
  The loop \<open>while let Some((start, length)) = find_newline(&self.text[self.index..])\<close>
  with the text \<open>t\<close>, the cursor \<open>self.index\<close> (\<open>i\<close>) and the owned buffer
  \<open>line\<close> (\<open>buf\<close>) as its state; it returns the buffer and the cursor when the loop
  ends, by \<open>break\<close> or by running out of line breaks. \<open>length\<close> is \<open>width\<close> here.
\<close>

function eat_lines :: "str \<Rightarrow> nat \<Rightarrow> str \<Rightarrow> (str \<times> nat) res" where
  "eat_lines t i buf =
    rbind (str_from t i) (\<lambda>rest.
    case find_newline rest of
      None \<Rightarrow> Inr (buf, i)
    | Some (start, width) \<Rightarrow>
        rbind (str_to t (i + start)) (\<lambda>pre.
        if is_bslash (last_char pre) then
          rbind (usize_sub (i + start) 1) (\<lambda>stop.
          rbind (str_slice t i stop) (\<lambda>part.
          eat_lines t (i + start + width) (buf @ part)))
        else
          rbind (str_slice t i (i + start)) (\<lambda>part.
          Inr (buf @ part, i + start + width))))"
  by pat_completeness auto

lemma find_newline_advance:
  assumes "str_from t i = Inr rest" and "find_newline rest = Some (start, width)"
  shows "length t - (i + start + width) < length t - i"
proof -
  have "i \<le> length t" "rest = drop i t" using str_from_Inr [OF assms(1)] by auto
  moreover have "1 \<le> width" "start + width \<le> length rest" using find_newline_bound [OF assms(2)] by auto
  ultimately show ?thesis by simp
qed

termination eat_lines
  by (relation "measure (\<lambda>(t, i, _). length t - i)") (auto dest: find_newline_advance)

text \<open>
  \<open>Iterator::next\<close>, lines 98--170. \<open>self.text.len() - 1\<close> is a checked subtraction; the
  slices \<open>&self.text[self.index..]\<close> and \<open>&self.text[self.index..self.index + start]\<close>,
  computed twice in the code, are computed once here (\<open>rest\<close>, \<open>l\<close>).
\<close>

function iter_next :: "iter \<Rightarrow> (requirement_line option \<times> iter) res" where
  "iter_next it =
    rbind (usize_sub (length (text' it)) 1) (\<lambda>last_ix.
    if index it = last_ix then Inr (None, it)
    else
    rbind (str_from (text' it) (index it)) (\<lambda>rest.
    case find_newline rest of
      None \<Rightarrow>
        (let it' = it\<lparr>index := last_ix\<rparr> in
         if starts_with (trim_start rest) [HASH] then Inr (None, it')
         else if trim rest = [] then Inr (None, it')
         else rbind (from_line (Borrowed rest)) (\<lambda>r. Inr (Some r, it')))
    | Some (start, width) \<Rightarrow>
        if starts_with (trim_start rest) [HASH]
        then iter_next (it\<lparr>index := index it + start + width\<rparr>)
        else
        rbind (str_slice (text' it) (index it) (index it + start)) (\<lambda>l.
        if trim l = [] then iter_next (it\<lparr>index := index it + start + width\<rparr>)
        else
        rbind (str_to (text' it) (index it + start)) (\<lambda>pre.
        if is_bslash (last_char pre) then
          rbind (usize_sub (index it + start) 1) (\<lambda>stop.
          rbind (str_slice (text' it) (index it) stop) (\<lambda>first.
          rbind (eat_lines (text' it) (index it + start + width) first) (\<lambda>(joined, index').
          rbind (from_line (Owned joined)) (\<lambda>r. Inr (Some r, it\<lparr>index := index'\<rparr>)))))
        else
          rbind (from_line (Borrowed l)) (\<lambda>r.
          Inr (Some r, it\<lparr>index := index it + start + width\<rparr>))))))"
  by pat_completeness auto

termination iter_next
  by (relation "measure (\<lambda>it. length (text' it) - index it)") (auto dest: find_newline_advance)

declare eat_lines.simps [simp del] iter_next.simps [simp del]

subsection \<open>Progress\<close>

lemma eat_lines_progress:
  "eat_lines t i buf = Inr (buf', i') \<Longrightarrow> i \<le> i' \<and> i' \<le> length t"
proof (induction t i buf rule: eat_lines.induct)
  case (1 t i buf)
  from "1.prems" obtain rest where r: "str_from t i = Inr rest"
    by (subst (asm) eat_lines.simps) (auto simp: rbind_eq_Inr)
  then have i: "i \<le> length t" "rest = drop i t" using str_from_Inr by auto
  show ?case
  proof (cases "find_newline rest")
    case None
    with "1.prems" r i show ?thesis by (subst (asm) eat_lines.simps) simp
  next
    case (Some a)
    then obtain start width where f: "find_newline rest = Some (start, width)" by (cases a) auto
    have b: "i + start + width \<le> length t" using find_newline_bound [OF f] i by (simp add: le_diff_conv2)
    from "1.prems" r f obtain pre where
      p: "str_to t (i + start) = Inr pre" and
      e: "(if is_bslash (last_char pre) then
            rbind (usize_sub (i + start) 1) (\<lambda>stop. rbind (str_slice t i stop) (\<lambda>part.
              eat_lines t (i + start + width) (buf @ part)))
          else rbind (str_slice t i (i + start)) (\<lambda>part. Inr (buf @ part, i + start + width)))
          = Inr (buf', i')"
      by (subst (asm) eat_lines.simps) (auto simp: rbind_eq_Inr)
    show ?thesis
    proof (cases "is_bslash (last_char pre)")
      case True
      with e obtain stop part where
        u: "usize_sub (i + start) 1 = Inr stop" and sl: "str_slice t i stop = Inr part" and
        ev: "eat_lines t (i + start + width) (buf @ part) = Inr (buf', i')"
        by (auto simp: rbind_eq_Inr)
      from "1.IH" [OF r f refl p True u sl ev] show ?thesis by simp
    next
      case False
      with e b show ?thesis by (auto simp: rbind_eq_Inr)
    qed
  qed
qed

text \<open>\<open>next\<close> once the guard \<open>self.index == self.text.len() - 1\<close> has been passed.\<close>

lemma iter_next_unfold:
  assumes "text' it \<noteq> []" and "index it \<noteq> length (text' it) - 1"
  shows "iter_next it =
    rbind (str_from (text' it) (index it)) (\<lambda>rest.
    case find_newline rest of
      None \<Rightarrow>
        (let it' = it\<lparr>index := length (text' it) - 1\<rparr> in
         if starts_with (trim_start rest) [HASH] then Inr (None, it')
         else if trim rest = [] then Inr (None, it')
         else rbind (from_line (Borrowed rest)) (\<lambda>r. Inr (Some r, it')))
    | Some (start, width) \<Rightarrow>
        if starts_with (trim_start rest) [HASH]
        then iter_next (it\<lparr>index := index it + start + width\<rparr>)
        else
        rbind (str_slice (text' it) (index it) (index it + start)) (\<lambda>l.
        if trim l = [] then iter_next (it\<lparr>index := index it + start + width\<rparr>)
        else
        rbind (str_to (text' it) (index it + start)) (\<lambda>pre.
        if is_bslash (last_char pre) then
          rbind (usize_sub (index it + start) 1) (\<lambda>stop.
          rbind (str_slice (text' it) (index it) stop) (\<lambda>first.
          rbind (eat_lines (text' it) (index it + start + width) first) (\<lambda>(joined, index').
          rbind (from_line (Owned joined)) (\<lambda>r. Inr (Some r, it\<lparr>index := index'\<rparr>)))))
        else
          rbind (from_line (Borrowed l)) (\<lambda>r.
          Inr (Some r, it\<lparr>index := index it + start + width\<rparr>)))))"
proof -
  have "1 \<le> length (text' it)" using assms(1) by (cases "text' it") auto
  then show ?thesis
    by (subst iter_next.simps) (simp only: usize_sub_ok rbind_Inr if_not_P [OF assms(2)])
qed

lemma iter_next_guard:
  "text' it \<noteq> [] \<Longrightarrow> index it = length (text' it) - 1 \<Longrightarrow> iter_next it = Inr (None, it)"
  by (subst iter_next.simps) (simp add: Suc_le_eq)

lemma iter_next_empty:
  "text' it = [] \<Longrightarrow> iter_next it = Inl Arith_overflow"
  by (subst iter_next.simps) simp

text \<open>
  What a call that does not panic leaves behind: the text is unchanged; an item moves the
  cursor forward within the text; \<open>None\<close> leaves the cursor on the last byte.
\<close>

lemma iter_next_Inr:
  "iter_next it = Inr (x, it') \<Longrightarrow>
     text' it' = text' it \<and>
     (case x of None \<Rightarrow> Suc (index it') = length (text' it)
      | Some _ \<Rightarrow> index it < index it' \<and> index it' \<le> length (text' it))"
proof (induction "length (text' it) - index it" arbitrary: it rule: less_induct)
  case less
  have ne: "text' it \<noteq> []" using less.prems iter_next_empty by fastforce
  show ?case
  proof (cases "index it = length (text' it) - 1")
    case True
    with less.prems ne show ?thesis by (simp add: iter_next_guard)
  next
    case g: False
    note u = iter_next_unfold [OF ne g]
    from less.prems u obtain rest where r: "str_from (text' it) (index it) = Inr rest"
      by (auto simp: rbind_eq_Inr)
    then have i: "index it \<le> length (text' it)" "rest = drop (index it) (text' it)"
      using str_from_Inr by auto
    show ?thesis
    proof (cases "find_newline rest")
      case None
      with less.prems u r have it': "it' = it\<lparr>index := length (text' it) - 1\<rparr>" and
        x: "x \<noteq> None \<Longrightarrow> trim rest \<noteq> []"
        by (auto simp: Let_def rbind_eq_Inr split: if_splits)
      have "x \<noteq> None \<Longrightarrow> rest \<noteq> []" using x by (auto simp: trim_def)
      with i g it' ne show ?thesis by (cases x) auto
    next
      case (Some a)
      then obtain start width where f: "find_newline rest = Some (start, width)" by (cases a) auto
      have b: "index it + start + width \<le> length (text' it)" "1 \<le> width"
        using find_newline_bound [OF f] i by (simp_all add: le_diff_conv2)
      define it1 where "it1 = it\<lparr>index := index it + start + width\<rparr>"
      have m: "length (text' it1) - index it1 < length (text' it) - index it"
        using find_newline_advance [OF r f] by (simp add: it1_def)
      have skip: "iter_next it1 = Inr (x, it') \<Longrightarrow> ?thesis"
        using less.hyps [OF m] by (cases x) (auto simp: it1_def)
      show ?thesis
      proof (cases "starts_with (trim_start rest) [HASH]")
        case True
        with less.prems u r f show ?thesis by (intro skip) (simp add: it1_def)
      next
        case nc: False
        from less.prems u r f nc obtain l where
          sl: "str_slice (text' it) (index it) (index it + start) = Inr l"
          by (auto simp: rbind_eq_Inr)
        show ?thesis
        proof (cases "trim l = []")
          case True
          with less.prems u r f nc sl show ?thesis by (intro skip) (simp add: it1_def)
        next
          case nb: False
          from less.prems u r f nc sl nb obtain pre where
            p: "str_to (text' it) (index it + start) = Inr pre"
            by (auto simp: rbind_eq_Inr)
          show ?thesis
          proof (cases "is_bslash (last_char pre)")
            case True
            with less.prems u r f nc sl nb p obtain stop first joined index' where
              "eat_lines (text' it) (index it + start + width) first = Inr (joined, index')" and
              it': "it' = it\<lparr>index := index'\<rparr>" and x: "x \<noteq> None"
              by (auto simp: rbind_eq_Inr)
            then have "index it + start + width \<le> index'" "index' \<le> length (text' it)"
              using eat_lines_progress by blast+
            with it' b x show ?thesis by auto
          next
            case False
            with less.prems u r f nc sl nb p have "it' = it1" "x \<noteq> None"
              by (auto simp: rbind_eq_Inr it1_def)
            with b show ?thesis by (auto simp: it1_def)
          qed
        qed
      qed
    qed
  qed
qed

lemmas iter_eval = iter_new_def is_ascii_def is_break_def is_whitespace_def
  trim_start_ascii_Cons chars_ascii_Cons trim_def trim_end.simps last_char_eq is_bslash_def
  find_newline_eq slice_get_def is_char_boundary_def str_slice_def str_to_def str_from_def
  from_line_def strip_trivia_eq comment_at_start_def hash_marker_def starts_with_def is_cont_def

subsection \<open>Properties\<close>

text \<open>
  C11: every item the iterator yields moves the cursor forward and keeps it within the text,
  which does not change: an iterator yields at most as many items as its text has bytes.
\<close>

theorem iter_next_advances:
  "iter_next it = Inr (Some r, it') \<Longrightarrow>
     text' it' = text' it \<and> index it < index it' \<and> index it' \<le> length (text' it)"
  by (drule iter_next_Inr) simp

theorem iter_next_advances_witness:
  "iter_next (iter_new (''ab'' @ [LF])) =
     Inr (Some \<lparr>line = Borrowed ''ab'', len = 2\<rparr>, \<lparr>text' = ''ab'' @ [LF], index = 3\<rparr>) \<and>
   0 < (3::nat) \<and> 3 \<le> length (''ab'' @ [LF])"
proof -
  have n: "iter_next (iter_new (''ab'' @ [LF])) =
     Inr (Some \<lparr>line = Borrowed ''ab'', len = 2\<rparr>, \<lparr>text' = ''ab'' @ [LF], index = 3\<rparr>)"
    by (subst iter_next_unfold) (simp_all add: iter_eval)
  from iter_next_advances [OF n] n show ?thesis by (simp add: iter_new_def)
qed

text \<open>
  C10: the iterator is fused: once \<open>next\<close> has returned \<open>None\<close>, every later call
  returns \<open>None\<close> again and leaves the iterator as it is.
\<close>

theorem iter_next_fused:
  assumes "iter_next it = Inr (None, it')"
  shows "iter_next it' = Inr (None, it')"
proof -
  from iter_next_Inr [OF assms] have "text' it' = text' it" "Suc (index it') = length (text' it)"
    by simp_all
  then have "text' it' \<noteq> []" "index it' = length (text' it') - 1" by auto
  then show ?thesis by (rule iter_next_guard)
qed

theorem iter_next_fused_witness:
  "iter_next (iter_new ''# c'') = Inr (None, \<lparr>text' = ''# c'', index = 2\<rparr>) \<and>
   iter_next \<lparr>text' = ''# c'', index = 2\<rparr> = Inr (None, \<lparr>text' = ''# c'', index = 2\<rparr>)"
proof -
  have n: "iter_next (iter_new ''# c'') = Inr (None, \<lparr>text' = ''# c'', index = 2\<rparr>)"
    by (subst iter_next_unfold) (simp_all add: iter_eval)
  from iter_next_fused [OF n] n show ?thesis by simp
qed

end
