(* ===== verification/Requirements.thy ===== *)
theory Requirements
  imports Req_Iterator
begin

text \<open>
  \<open>Requirements\<close> and \<open>Requirements::from_str\<close> (lines 9--30). The PEP 508 parser
  \<open>Requirement::from_str\<close> belongs to the external crate \<open>pep508_rs\<close>; it is the parameter
  \<open>parse :: str \<Rightarrow> 'e + 'r\<close> (\<open>Inl\<close> a \<open>Pep508Error\<close>, \<open>Inr\<close> a \<open>Requirement\<close>), and every
  lemma holds for every parser. \<open>RequirementsIterator::new(s).map(..).collect::<Result<Vec<_>, _>>()\<close>
  is \<open>collect_requirements\<close>: it pulls one item, parses its clean span, and stops at the first
  parser error without pulling further items, so a later panic of the iterator is never
  reached. The result type nests the two kinds of failure: the outer \<open>panic + _\<close> is a
  panic, the inner \<open>'e + _\<close> the \<open>Result\<close> of the code.
\<close>

datatype 'r requirements = Requirements "'r list"

text \<open>\<open>Deref for Requirements\<close>: the slice of parsed requirements.\<close>

primrec deref :: "'r requirements \<Rightarrow> 'r list" where
  "deref (Requirements rs) = rs"

function collect_requirements :: "(str \<Rightarrow> 'e + 'r) \<Rightarrow> iter \<Rightarrow> ('e + 'r list) res" where
  "collect_requirements parse it =
    rbind (iter_next it) (\<lambda>(item, it').
    case item of
      None \<Rightarrow> Inr (Inr [])
    | Some requirement \<Rightarrow>
        rbind (as_str requirement) (\<lambda>s.
        case parse s of
          Inl e \<Rightarrow> Inr (Inl e)
        | Inr r \<Rightarrow>
            rbind (collect_requirements parse it') (\<lambda>rest.
            Inr (map_sum id (Cons r) rest))))"
  by pat_completeness auto

termination collect_requirements
  by (relation "measure (\<lambda>(_, it). length (text' it) - index it)")
     (auto dest!: iter_next_Inr)

declare collect_requirements.simps [simp del]

definition from_str :: "(str \<Rightarrow> 'e + 'r) \<Rightarrow> str \<Rightarrow> ('e + 'r requirements) res" where
  "from_str parse s =
    rbind (collect_requirements parse (iter_new s)) (\<lambda>v. Inr (map_sum id Requirements v))"

end
