(* ===== verification/Logical_Lines.thy ===== *)
theory Logical_Lines
  imports Find_Newline Trivia
begin

text \<open>
  The reference specification of the line splitter (section 4.1 of the specification),
  written without cursors or slicing: \<open>phys\<close> cuts a text into its physical lines, each
  ended by \<open>\n\<close>, \<open>\r\n\<close> or a lone \<open>\r\<close>, and the unterminated rest; \<open>logical\<close> drops
  comment and blank lines (rules 3 and 4), joins the lines of a continuation chain
  (rule 5, \<open>join\<close>) and keeps the other lines as they are (rule 6); \<open>spec_lines\<close> adds the
  final unterminated line. \<open>parse_lines\<close> is the collection builder of section 4.3 over
  these lines: strip each line, parse it, stop at the first error. \<open>to_lf\<close> rewrites every
  line break to \<open>\n\<close>. The lemmas give the splitting of a text at its first break, that
  \<open>phys\<close> does not see the kind of line break, and how \<open>spec_lines\<close> reads a text line by
  line.
\<close>

fun phys :: "str \<Rightarrow> str list \<times> str" where
  "phys [] = ([], [])"
| "phys (b # s) =
    (if is_break b then
       (let (ls, t) = phys (if b = CR \<and> starts_with s [LF] then tl s else s) in ([] # ls, t))
     else
       (let (ls, t) = phys s in
        case ls of [] \<Rightarrow> ([], b # t) | l # ls' \<Rightarrow> ((b # l) # ls', t)))"

definition ends_bslash :: "str \<Rightarrow> bool" where
  "ends_bslash l \<longleftrightarrow> l \<noteq> [] \<and> last l = BSLASH"

text \<open>Rules 3 and 4: a line that is a comment after leading whitespace, or blank.\<close>

definition skipped :: "str \<Rightarrow> bool" where
  "skipped l \<longleftrightarrow> starts_with (trim_start l) [HASH] \<or> trim l = []"

lemma skipped_Nil [simp]: "skipped []"
  by (simp add: skipped_def trim_def)

text \<open>Rule 5: append continued lines without their backslash up to the first line that is
  not continued, which is appended whole; return the joined line and the lines after it.\<close>

fun join :: "str \<Rightarrow> str list \<Rightarrow> str \<times> str list" where
  "join acc [] = (acc, [])"
| "join acc (l # ls) = (if ends_bslash l then join (acc @ butlast l) ls else (acc @ l, ls))"

lemma join_shorter: "join acc ls = (j, ls') \<Longrightarrow> length ls' \<le> length ls"
  by (induction acc ls rule: join.induct) (auto split: if_splits)

function logical :: "str list \<Rightarrow> cow list" where
  "logical [] = []"
| "logical (l # ls) =
    (if skipped l then logical ls
     else if ends_bslash l then
       (case join (butlast l) ls of (j, ls') \<Rightarrow> Owned j # logical ls')
     else Borrowed l # logical ls)"
  by pat_completeness auto

termination logical
  by (relation "measure length") (auto simp: less_Suc_eq_le dest: join_shorter [OF sym])

definition tail_line :: "str \<Rightarrow> cow list" where
  "tail_line t = (if skipped t then [] else [Borrowed t])"

text \<open>
  The specification itself reads the text as one list of physical lines, the last one
  unterminated (rule 2), each marked by whether a line break ends it. Only a terminated line
  can be continued; the first line of a chain that is not continued, the last line included,
  ends the chain (\<open>spec_join\<close>). Suppression is decided on the first line of a chain,
  and a suppressed first line drops the whole chain (the edge-case policy of section 4.1).
\<close>

definition physical_lines :: "str \<Rightarrow> (str \<times> bool) list" where
  "physical_lines s = (case phys s of (ls, t) \<Rightarrow> map (\<lambda>l. (l, True)) ls @ [(t, False)])"

fun spec_join :: "str \<Rightarrow> (str \<times> bool) list \<Rightarrow> str \<times> (str \<times> bool) list" where
  "spec_join acc [] = (acc, [])"
| "spec_join acc ((l, terminated) # ps) =
    (if terminated \<and> ends_bslash l then spec_join (acc @ butlast l) ps else (acc @ l, ps))"

lemma spec_join_shorter: "spec_join acc ps = (j, ps') \<Longrightarrow> length ps' \<le> length ps"
  by (induction acc ps rule: spec_join.induct) (auto split: if_splits)

function spec_logical :: "(str \<times> bool) list \<Rightarrow> cow list" where
  "spec_logical [] = []"
| "spec_logical ((l, terminated) # ps) =
    (if terminated \<and> ends_bslash l then
       (case spec_join (butlast l) ps of
          (j, ps') \<Rightarrow> (if skipped l then [] else [Owned j]) @ spec_logical ps')
     else if skipped l then spec_logical ps
     else Borrowed l # spec_logical ps)"
  by pat_completeness auto

termination spec_logical
  by (relation "measure length") (auto simp: less_Suc_eq_le dest: spec_join_shorter [OF sym])

definition spec_lines :: "str \<Rightarrow> cow list" where
  "spec_lines s = spec_logical (physical_lines s)"

fun parse_lines :: "(str \<Rightarrow> 'e + 'r) \<Rightarrow> cow list \<Rightarrow> ('e + 'r list) res" where
  "parse_lines parse [] = Inr (Inr [])"
| "parse_lines parse (c # cs) =
    rbind (from_line c) (\<lambda>l. rbind (as_str l) (\<lambda>s.
    case parse s of
      Inl e \<Rightarrow> Inr (Inl e)
    | Inr r \<Rightarrow> rbind (parse_lines parse cs) (\<lambda>rest. Inr (map_sum id (Cons r) rest))))"

fun to_lf :: "str \<Rightarrow> str" where
  "to_lf [] = []"
| "to_lf (b # s) =
    (if b = CR then LF # to_lf (if starts_with s [LF] then tl s else s) else b # to_lf s)"

declare phys.simps(2) [simp del] logical.simps(2) [simp del] spec_logical.simps(2) [simp del]

subsection \<open>Physical lines\<close>

lemma phys_no_break:
  "\<forall>b \<in> set l. \<not> is_break b \<Longrightarrow> phys l = ([], l)"
  by (induction l) (auto simp: phys.simps(2))

lemma phys_line:
  assumes "\<forall>b \<in> set l. \<not> is_break b" and "line_break brk rest"
  shows "phys (l @ brk @ rest) = (l # fst (phys rest), snd (phys rest))"
  using assms(1)
proof (induction l)
  case Nil
  from assms(2) show ?case
    by (auto simp: line_break_def phys.simps(2) is_break_def starts_with_def split: prod.split)
next
  case (Cons b l)
  then show ?case by (simp add: phys.simps(2) split: prod.split)
qed

text \<open>\<open>phys\<close> does not see which of the three line breaks ends a line.\<close>

lemma phys_to_lf: "phys (to_lf s) = phys s"
proof (induction s rule: to_lf.induct)
  case 1
  then show ?case by simp
next
  case (2 b s)
  show ?case
  proof (cases "b = CR")
    case True
    with 2 show ?thesis by (simp add: phys.simps(2) is_break_def)
  next
    case False
    with 2 show ?thesis by (simp add: phys.simps(2))
  qed
qed

subsection \<open>Line by line, and the specification\<close>

text \<open>\<open>open_chain ls\<close>: the last terminated line is continued, so a chain is still open when
  the text runs out of line breaks.\<close>

definition open_chain :: "str list \<Rightarrow> bool" where
  "open_chain ls \<longleftrightarrow> ls \<noteq> [] \<and> ends_bslash (last ls)"

lemma join_suffix: "join acc ls = (j, ls') \<Longrightarrow> \<exists>p. ls = p @ ls'"
  by (induction acc ls rule: join.induct) (auto split: if_splits intro: exI [of _ "_ # _"])

lemma join_spec_join_stop:
  "join acc ls = (j, ls') \<Longrightarrow> \<not> (\<forall>l \<in> set ls. ends_bslash l) \<Longrightarrow>
     spec_join acc (map (\<lambda>l. (l, True)) ls @ [(t, False)]) = (j, map (\<lambda>l. (l, True)) ls' @ [(t, False)])"
  by (induction acc ls rule: join.induct) (auto split: if_splits)

lemma join_spec_join_all:
  "\<forall>l \<in> set ls. ends_bslash l \<Longrightarrow>
     join acc ls = (acc @ concat (map butlast ls), []) \<and>
     spec_join acc (map (\<lambda>l. (l, True)) ls @ [(t, False)]) = (acc @ concat (map butlast ls) @ t, [])"
  by (induction ls arbitrary: acc) auto

lemma open_chain_suffix:
  "\<not> open_chain ls \<Longrightarrow> ls = p @ ls' \<Longrightarrow> \<not> open_chain ls'"
  by (auto simp: open_chain_def)

text \<open>
  The line-by-line reading of \<open>logical\<close> and the specification agree unless a suppressed
  line is continued (the specification drops its whole chain) or a chain is still open at an
  unterminated last line (the specification joins that line to the chain).
\<close>

lemma logical_spec_logical:
  assumes "\<forall>l \<in> set ls. skipped l \<longrightarrow> \<not> ends_bslash l" and "t = [] \<or> \<not> open_chain ls"
  shows "logical ls @ tail_line t = spec_logical (map (\<lambda>l. (l, True)) ls @ [(t, False)])"
  using assms
proof (induction ls rule: logical.induct)
  case 1
  then show ?case by (simp add: tail_line_def spec_logical.simps(2))
next
  case (2 l ls)
  have b: "t = [] \<or> \<not> open_chain ls"
  proof (cases "t = []")
    case False
    with "2.prems"(2) have "\<not> open_chain (l # ls)" by blast
    from open_chain_suffix [OF this, of "[l]" ls] show ?thesis by simp
  qed simp
  have a: "\<forall>l \<in> set ls. skipped l \<longrightarrow> \<not> ends_bslash l" using "2.prems"(1) by simp
  show ?case
  proof (cases "ends_bslash l")
    case True
    with "2.prems"(1) have ns: "\<not> skipped l" by simp
    obtain j ls' where jn: "join (butlast l) ls = (j, ls')" by (cases "join (butlast l) ls")
    show ?thesis
    proof (cases "\<forall>l \<in> set ls. ends_bslash l")
      case False
      from join_suffix [OF jn] obtain p where p: "ls = p @ ls'" by blast
      have "t = [] \<or> \<not> open_chain ls'" using b open_chain_suffix [OF _ p] by blast
      moreover have "\<forall>l \<in> set ls'. skipped l \<longrightarrow> \<not> ends_bslash l" using a p by simp
      ultimately have "logical ls' @ tail_line t = spec_logical (map (\<lambda>l. (l, True)) ls' @ [(t, False)])"
        using "2.IH"(2) [OF ns True jn [symmetric]] by blast
      with True ns jn join_spec_join_stop [OF jn False, of t] show ?thesis
        by (simp add: logical.simps(2) spec_logical.simps(2))
    next
      case all: True
      with True have "open_chain (l # ls)" by (auto simp: open_chain_def)
      with "2.prems"(2) have t: "t = []" by blast
      from join_spec_join_all [OF all, of "butlast l" t] jn t True ns show ?thesis
        by (simp add: logical.simps(2) spec_logical.simps(2) tail_line_def)
    qed
  next
    case False
    with "2.IH"(1,3) a b show ?thesis by (simp add: logical.simps(2) spec_logical.simps(2))
  qed
qed

subsection \<open>Continuation chains\<close>

text \<open>A chain: lines \<open>ls\<close>, each followed by a backslash and a \<open>\n\<close>, then a line \<open>l\<close>
  that is not continued.\<close>

lemma phys_chain:
  assumes "\<forall>l \<in> set ls. \<forall>b \<in> set l. \<not> is_break b" and "\<forall>b \<in> set l. \<not> is_break b"
  shows "phys (concat (map (\<lambda>x. x @ [BSLASH, LF]) ls) @ l @ [LF] @ rest) =
           (map (\<lambda>x. x @ [BSLASH]) ls @ l # fst (phys rest), snd (phys rest))"
  using assms(1)
proof (induction ls)
  case Nil
  have "line_break [LF] rest" by (simp add: line_break_def)
  from phys_line [OF assms(2) this] show ?case by simp
next
  case (Cons x ls)
  have nb: "\<forall>b \<in> set (x @ [BSLASH]). \<not> is_break b" using Cons.prems by (auto simp: is_break_def)
  have "line_break [LF] (concat (map (\<lambda>x. x @ [BSLASH, LF]) ls) @ l @ [LF] @ rest)"
    by (simp add: line_break_def)
  from phys_line [OF nb this] Cons show ?case by simp
qed

lemma join_chain:
  assumes "\<not> ends_bslash l"
  shows "join acc (map (\<lambda>x. x @ [BSLASH]) ls @ l # ms) = (acc @ concat ls @ l, ms)"
  using assms by (induction ls arbitrary: acc) (auto simp: ends_bslash_def)

lemma logical_skipped:
  "\<forall>l \<in> set ls. skipped l \<Longrightarrow> logical ls = []"
  by (induction ls) (simp_all add: logical.simps(2))

subsection \<open>The collection builder\<close>

lemma parse_lines_Cons_strip:
  "parse_lines parse (c # cs) =
    rbind (strip_trivia (cow_str c)) (\<lambda>n.
    case parse (take n (cow_str c)) of
      Inl e \<Rightarrow> Inr (Inl e)
    | Inr r \<Rightarrow> rbind (parse_lines parse cs) (\<lambda>rest. Inr (map_sum id (Cons r) rest)))"
proof (cases "strip_trivia (cow_str c)")
  case (Inl e)
  then show ?thesis by (simp add: from_line_def)
next
  case (Inr n)
  then have "from_line c = Inr \<lparr>line = c, len = n\<rparr>" by (simp add: from_line_def)
  with as_str_from_line [OF this] Inr show ?thesis by simp
qed

lemma parse_lines_Inl:
  "parse_lines parse cs = Inl e \<Longrightarrow> \<exists>c \<in> set cs. strip_trivia (cow_str c) = Inl e"
proof (induction cs)
  case (Cons c cs)
  then show ?case
    by (cases "strip_trivia (cow_str c)")
       (auto simp: parse_lines_Cons_strip rbind_eq_Inl split: sum.splits simp del: parse_lines.simps(2))
qed simp

lemma parse_lines_first_error:
  assumes "\<forall>d \<in> set pre. \<exists>n r. strip_trivia (cow_str d) = Inr n \<and> parse (take n (cow_str d)) = Inr r"
    and "strip_trivia (cow_str c) = Inr n" and "parse (take n (cow_str c)) = Inl e"
  shows "parse_lines parse (pre @ c # cs) = Inr (Inl e)"
  using assms(1)
proof (induction pre)
  case Nil
  with assms(2,3) show ?case by (simp add: parse_lines_Cons_strip del: parse_lines.simps(2))
next
  case (Cons d pre)
  then obtain m r where "strip_trivia (cow_str d) = Inr m" "parse (take m (cow_str d)) = Inr r" by auto
  with Cons show ?case by (simp add: parse_lines_Cons_strip del: parse_lines.simps(2))
qed

lemma parse_lines_all_ok:
  "list_all2 (\<lambda>c r. \<exists>n. strip_trivia (cow_str c) = Inr n \<and> parse (take n (cow_str c)) = Inr r) cs rs \<Longrightarrow>
     parse_lines parse cs = Inr (Inr rs)"
  by (induction rule: list_all2_induct) (auto simp: parse_lines_Cons_strip simp del: parse_lines.simps(2))

subsection \<open>Rewriting the line breaks\<close>

lemma to_lf_Nil_iff [simp]: "to_lf s = [] \<longleftrightarrow> s = []"
  by (cases s) simp_all

lemma to_lf_append:
  "CR \<notin> set c \<Longrightarrow> to_lf (c @ r) = c @ to_lf r"
  by (induction c) auto

lemma utf8_first_no_CR:
  assumes "utf8_first s = Some n" and "2 \<le> n"
  shows "CR \<notin> set (take n s)"
proof
  assume "CR \<in> set (take n s)"
  then obtain k where k: "k < n" "k < length s" "s ! k = CR" by (auto simp: in_set_conv_nth)
  show False
  proof (cases "k = 0")
    case True
    from assms(1) obtain b r where s: "s = b # r" by (cases s) auto
    with utf8_first_lead [of b r n] assms have "\<not> is_ascii b" by simp
    with True k s show False by (simp add: is_ascii_def)
  next
    case False
    then have "is_cont (s ! k)" using k(1) by (intro utf8_first_cont [OF assms(1)]) simp_all
    with k(3) show False by (simp add: is_cont_def)
  qed
qed

lemma valid_utf8_to_lf:
  "valid_utf8 s \<Longrightarrow> valid_utf8 (to_lf s)"
proof (induction "length s" arbitrary: s rule: less_induct)
  case less
  show ?case
  proof (cases s)
    case Nil
    then show ?thesis by simp
  next
    case (Cons b r)
    show ?thesis
    proof (cases "b = CR")
      case True
      define r' where "r' = (if starts_with r [LF] then tl r else r)"
      have vr: "valid_utf8 r" using less.prems Cons True by (simp add: is_ascii_def)
      have "valid_utf8 r'"
      proof (cases "starts_with r [LF]")
        case True
        then have "r = LF # tl r" by (cases r) (auto simp: starts_with_def)
        with vr have "valid_utf8 (LF # tl r)" by simp
        with True show ?thesis by (simp add: r'_def is_ascii_def)
      qed (simp add: r'_def vr)
      moreover have "length r' < length s" using Cons by (auto simp: r'_def)
      ultimately have "valid_utf8 (to_lf r')" using less.hyps by blast
      with Cons True show ?thesis by (simp add: r'_def is_ascii_def)
    next
      case False
      from less.prems Cons obtain n where n: "utf8_first s = Some n" and vd: "valid_utf8 (drop n s)"
        by (auto simp: valid_utf8_nonempty)
      have n1: "1 \<le> n" "n \<le> length s" using utf8_first_range [OF n] by auto
      have nocr: "CR \<notin> set (take n s)"
      proof (cases "n = 1")
        case True
        with Cons False show ?thesis by simp
      qed (use n n1 utf8_first_no_CR in auto)
      have "length (drop n s) < length s" using n1 Cons by simp
      with vd less.hyps have "valid_utf8 (to_lf (drop n s))" by blast
      moreover have "valid_utf8 (take n s)" using valid_utf8_first_take [OF n] .
      ultimately have "valid_utf8 (take n s @ to_lf (drop n s))" by (rule valid_utf8_append [rotated])
      then show ?thesis using to_lf_append [OF nocr, of "drop n s"] by simp
    qed
  qed
qed

end
