(* ===== verification/Refinement.thy ===== *)
theory Refinement
  imports Requirements Logical_Lines
begin

text \<open>
  The iterator refines the reference splitter. The cursor of \<open>RequirementsIterator\<close> is
  always at the start of a physical line (\<open>line_start\<close>) or on the last byte of the text
  (\<open>cursor_ok\<close>); from such a cursor, \<open>iter_next\<close> yields the first of the lines that
  \<open>iter_lines\<close> computes from the rest of the text, and \<open>eat_lines\<close> computes \<open>join\<close>.
  \<open>iter_lines\<close> is \<open>spec_lines\<close> except for the guard
  \<open>self.index == self.text.len() - 1\<close>, which drops an unterminated last line of one byte
  (\<open>last_line\<close>). Composed with the collection loop, this gives \<open>from_str\<close> in closed
  form: \<open>parse_lines\<close> over \<open>iter_lines\<close> of the text.
\<close>

definition line_start :: "str \<Rightarrow> nat \<Rightarrow> bool" where
  "line_start s i \<longleftrightarrow> i \<le> length s \<and> (i = 0 \<or> is_break (s ! (i - 1)))"

definition cursor_ok :: "str \<Rightarrow> nat \<Rightarrow> bool" where
  "cursor_ok s i \<longleftrightarrow> line_start s i \<or> Suc i = length s"

definition last_line :: "str \<Rightarrow> cow list" where
  "last_line t = (if length t = 1 then [] else tail_line t)"

definition iter_lines :: "str \<Rightarrow> cow list" where
  "iter_lines r = (case phys r of (ls, t) \<Rightarrow> logical ls @ last_line t)"

subsection \<open>Slicing at line starts\<close>

lemma is_break_ascii: "is_break b \<Longrightarrow> is_ascii b"
  by (auto simp: is_break_def is_ascii_def)

lemma is_break_not_bslash: "is_break b \<Longrightarrow> b \<noteq> BSLASH"
  by (auto simp: is_break_def)

lemma line_start_boundary:
  assumes "valid_utf8 s" and "line_start s i"
  shows "is_char_boundary s i"
proof (cases "i = 0")
  case False
  with assms(2) have "i - 1 < length s" "is_ascii (s ! (i - 1))"
    by (auto simp: line_start_def is_break_ascii)
  from boundary_after_ascii [OF assms(1) this] False show ?thesis by simp
qed simp

lemma valid_utf8_between:
  assumes "valid_utf8 s" and "is_char_boundary s i" and "is_char_boundary s (i + n)"
  shows "valid_utf8 (take n (drop i s))"
proof -
  have v: "valid_utf8 (drop i s)" using valid_utf8_boundary_split [OF assms(1,2)] by blast
  have "is_char_boundary (drop i s) n" using boundary_drop [OF assms(3), of i] by simp
  with v show ?thesis using valid_utf8_boundary_split by blast
qed

lemma last_char_bslash:
  assumes "valid_utf8 t"
  shows "is_bslash (last_char t) \<longleftrightarrow> ends_bslash t"
proof
  assume "is_bslash (last_char t)"
  then have "last_char t = Some 0x5C" by (auto simp: is_bslash_def is_some_and_def split: option.splits)
  from last_char_ascii_last [OF assms this] have "t \<noteq> []" "of_char (last t) = (0x5C::nat)" by simp_all
  moreover have "(of_char (last t) :: nat) = of_char BSLASH \<Longrightarrow> last t = BSLASH"
    by (simp only: of_char_eq_iff)
  ultimately show "ends_bslash t" by (simp add: ends_bslash_def)
next
  assume e: "ends_bslash t"
  then have t: "t = butlast t @ [BSLASH]" by (metis ends_bslash_def append_butlast_last_id)
  have "is_char_boundary t (length t - 1)"
    using e by (intro boundary_ascii) (auto simp: ends_bslash_def last_conv_nth is_ascii_def)
  then have "valid_utf8 (butlast t)"
    using valid_utf8_boundary_split [OF assms] by (simp add: butlast_conv_take)
  then have "last_char (butlast t @ [BSLASH]) = Some 0x5C"
    by (simp add: last_char_snoc_ascii is_ascii_def)
  then show "is_bslash (last_char t)" using t by (simp add: is_bslash_def)
qed

text \<open>The continuation test \<open>self.text[..self.index + start].chars().rev().next()\<close> reads
  the last byte of the line when the line is not empty, and a line break otherwise.\<close>

lemma bslash_at:
  assumes "valid_utf8 s" and "line_start s k" and "is_char_boundary s (k + n)"
  shows "is_bslash (last_char (take (k + n) s)) \<longleftrightarrow> ends_bslash (take n (drop k s))"
proof -
  have v: "valid_utf8 (take (k + n) s)" using valid_utf8_boundary_split [OF assms(1,3)] by blast
  have kn: "k + n \<le> length s" using boundary_le_length [OF assms(3)] .
  have "ends_bslash (take (k + n) s) \<longleftrightarrow> ends_bslash (take n (drop k s))"
  proof (cases "n = 0")
    case True
    have "\<not> ends_bslash (take k s)"
    proof
      assume e: "ends_bslash (take k s)"
      then have k: "k \<noteq> 0" by (auto simp: ends_bslash_def)
      with assms(2) have b: "is_break (s ! (k - 1))" and kl: "k \<le> length s"
        by (auto simp: line_start_def)
      have "last (take k s) = s ! (k - 1)" using k kl by (subst last_conv_nth) auto
      with e b show False using is_break_not_bslash by (auto simp: ends_bslash_def)
    qed
    with True show ?thesis by (simp add: ends_bslash_def)
  next
    case False
    have "take (k + n) s = take k s @ take n (drop k s)" by (rule take_add_drop)
    moreover have "take n (drop k s) \<noteq> []" using False kn by simp
    ultimately show ?thesis by (simp add: ends_bslash_def)
  qed
  with last_char_bslash [OF v] show ?thesis by simp
qed

text \<open>\<open>find_newline(&self.text[self.index..])\<close> at a line start: the rest of the text is the
  line, its break and the text after it, which starts a line again.\<close>

lemma newline_at:
  assumes "line_start s i" and "find_newline (drop i s) = Some (start, width)"
  shows "drop i s = take start (drop i s) @ take width (drop (i + start) s) @ drop (i + start + width) s \<and>
         (\<forall>b \<in> set (take start (drop i s)). \<not> is_break b) \<and>
         line_break (take width (drop (i + start) s)) (drop (i + start + width) s) \<and>
         i + start < length s \<and> is_ascii (s ! (i + start)) \<and> line_start s (i + start + width)"
proof -
  note sp = find_newline_split [OF assms(2)]
  note f = find_newline_Some [OF assms(2)]
  have i: "i \<le> length s" using assms(1) by (simp add: line_start_def)
  have a: "take width (drop start (drop i s)) = take width (drop (i + start) s)"
    "drop (start + width) (drop i s) = drop (i + start + width) s"
    by (simp_all add: add.commute add.left_commute)
  have lt: "i + start < length s" using f by (auto simp: less_diff_conv)
  have br: "is_break (s ! (i + start))" using f i by simp
  have le: "i + start + width \<le> length s"
    using find_newline_bound [OF assms(2)] i by (simp add: le_diff_conv2)
  have "is_break (s ! (i + start + width - 1))"
    using f br i by (auto simp: is_break_def add.commute add.left_commute)
  with le have ls: "line_start s (i + start + width)" by (simp add: line_start_def)
  from sp a lt br ls show ?thesis by (simp add: is_break_ascii)
qed

text \<open>The two skip tests of \<open>next\<close>, the first on the whole rest of the text, decide
  \<open>skipped\<close> on the line.\<close>

lemma skip_test:
  assumes "valid_utf8 l"
  shows "(starts_with (trim_start (l @ x)) [HASH] \<or> trim l = []) \<longleftrightarrow> skipped l"
proof (cases "list_all is_whitespace (chars l)")
  case True
  then show ?thesis by (simp add: skipped_def trim_Nil_iff)
next
  case False
  have "trim_start (l @ x) = trim_start l @ x" by (rule trim_start_append [OF assms False])
  moreover have "trim_start l \<noteq> []" by (rule trim_start_nonblank [OF False])
  ultimately show ?thesis using False by (simp add: skipped_def trim_Nil_iff starts_with_single)
qed

subsection \<open>The lines the iterator produces\<close>

lemma iter_lines_short:
  assumes "length r \<le> 1"
  shows "iter_lines r = []"
proof (cases r)
  case Nil
  then show ?thesis by (simp add: iter_lines_def last_line_def tail_line_def)
next
  case (Cons b r')
  with assms have r: "r = [b]" by simp
  show ?thesis
  proof (cases "is_break b")
    case True
    then have "phys [b] = ([[]], [])" by (simp add: phys.simps(2))
    then show ?thesis by (simp add: r iter_lines_def last_line_def tail_line_def logical.simps(2))
  next
    case False
    then have "phys [b] = ([], [b])" by (simp add: phys.simps(2))
    then show ?thesis by (simp add: r iter_lines_def last_line_def)
  qed
qed

lemma iter_lines_no_break:
  "\<forall>b \<in> set r. \<not> is_break b \<Longrightarrow> iter_lines r = last_line r"
  by (simp add: iter_lines_def phys_no_break)

lemma iter_lines_line:
  assumes "\<forall>b \<in> set l. \<not> is_break b" and "line_break brk rest"
  shows "iter_lines (l @ brk @ rest) =
    (if skipped l then iter_lines rest
     else if ends_bslash l then
       (case join (butlast l) (fst (phys rest)) of
          (j, ls') \<Rightarrow> Owned j # logical ls' @ last_line (snd (phys rest)))
     else Borrowed l # iter_lines rest)"
  by (simp add: iter_lines_def phys_line [OF assms] logical.simps(2) split: prod.split)

subsection \<open>The continuation loop computes \<open>join\<close>\<close>

lemma eat_lines_join:
  assumes "valid_utf8 s" and "line_start s k"
  shows "\<exists>k'. eat_lines s k buf = Inr (fst (join buf (fst (phys (drop k s)))), k') \<and>
              line_start s k' \<and>
              phys (drop k' s) = (snd (join buf (fst (phys (drop k s)))), snd (phys (drop k s)))"
  using assms
proof (induction s k buf rule: eat_lines.induct)
  case (1 s k buf)
  note v = "1.prems"(1) and ls = "1.prems"(2)
  have r: "str_from s k = Inr (drop k s)" using line_start_boundary [OF v ls] by simp
  show ?case
  proof (cases "find_newline (drop k s)")
    case None
    then have nb: "\<forall>b \<in> set (drop k s). \<not> is_break b" using find_newline_None by blast
    have "eat_lines s k buf = Inr (buf, k)" using r None by (subst eat_lines.simps) simp
    with nb ls show ?thesis by (simp add: phys_no_break)
  next
    case (Some a)
    then obtain start width where f: "find_newline (drop k s) = Some (start, width)" by (cases a) auto
    define L where "L = take start (drop k s)"
    define brk where "brk = take width (drop (k + start) s)"
    define rest where "rest = drop (k + start + width) s"
    from newline_at [OF ls f] have d: "drop k s = L @ brk @ rest" and nb: "\<forall>b \<in> set L. \<not> is_break b"
      and lb: "line_break brk rest" and lt: "k + start < length s" and asc: "is_ascii (s ! (k + start))"
      and ls1: "line_start s (k + start + width)"
      unfolding L_def brk_def rest_def by blast+
    have bs: "is_char_boundary s (k + start)" using lt asc by (rule boundary_ascii)
    have ph: "phys (drop k s) = (L # fst (phys rest), snd (phys rest))"
      using phys_line [OF nb lb] d by simp
    have p: "str_to s (k + start) = Inr (take (k + start) s)" using bs by simp
    have tst: "is_bslash (last_char (take (k + start) s)) \<longleftrightarrow> ends_bslash L"
      unfolding L_def by (rule bslash_at [OF v ls bs])
    show ?thesis
    proof (cases "ends_bslash L")
      case True
      then have L: "L \<noteq> []" "last L = BSLASH" by (simp_all add: ends_bslash_def)
      then have st: "0 < start" by (auto simp: L_def)
      have "s ! (k + start - 1) = BSLASH"
        using L lt st by (simp add: L_def last_conv_nth)
      then have bs1: "is_char_boundary s (k + start - 1)"
        using lt by (intro boundary_ascii) (simp_all add: is_ascii_def)
      have kb: "is_char_boundary s k" using line_start_boundary [OF v ls] .
      have sl: "str_slice s k (k + start - 1) = Inr (butlast L)"
        using kb bs1 st lt by (simp add: L_def butlast_take)
      have u: "usize_sub (k + start) 1 = Inr (k + start - 1)" using st by simp
      from "1.IH" [OF r f refl p _ u sl] True tst v ls1
      obtain k' where
        e: "eat_lines s (k + start + width) (buf @ butlast L) =
              Inr (fst (join (buf @ butlast L) (fst (phys rest))), k')" and
        ls': "line_start s k'" and
        ph': "phys (drop k' s) = (snd (join (buf @ butlast L) (fst (phys rest))), snd (phys rest))"
        by (auto simp: rest_def)
      have "eat_lines s k buf = eat_lines s (k + start + width) (buf @ butlast L)"
        using r f p True tst u sl by (subst eat_lines.simps) simp
      with e ls' ph' ph True show ?thesis by auto
    next
      case False
      have kb: "is_char_boundary s k" using line_start_boundary [OF v ls] .
      have sl: "str_slice s k (k + start) = Inr L" using kb bs by (simp add: L_def)
      have "eat_lines s k buf = Inr (buf @ L, k + start + width)"
        using r f p False tst sl by (subst eat_lines.simps) simp
      with ls1 ph False show ?thesis by (auto simp: rest_def)
    qed
  qed
qed

subsection \<open>One call of \<open>next\<close> at a line start\<close>

lemma iter_next_tail:
  assumes "valid_utf8 s" and "s \<noteq> []" and "line_start s i" and "Suc i \<noteq> length s"
    and "find_newline (drop i s) = None"
  shows "iter_next \<lparr>text' = s, index = i\<rparr> =
    (if skipped (drop i s) then Inr (None, \<lparr>text' = s, index = length s - 1\<rparr>)
     else rbind (from_line (Borrowed (drop i s))) (\<lambda>r. Inr (Some r, \<lparr>text' = s, index = length s - 1\<rparr>)))"
proof -
  have b: "is_char_boundary s i" using line_start_boundary [OF assms(1,3)] .
  note ne = assms(2)
  have g: "i \<noteq> length s - 1" using assms(4) ne by (cases s) auto
  have v: "valid_utf8 (drop i s)" using valid_utf8_boundary_split [OF assms(1) b] by blast
  have sk: "(starts_with (trim_start (drop i s)) [HASH] \<or> trim (drop i s) = []) \<longleftrightarrow> skipped (drop i s)"
    using skip_test [OF v, of "[]"] by simp
  show ?thesis
    using iter_next_unfold [of "\<lparr>text' = s, index = i\<rparr>"] ne g b assms(5) sk
    by (auto simp: Let_def)
qed

lemma iter_next_line:
  assumes "valid_utf8 s" and "s \<noteq> []" and "line_start s i" and "Suc i \<noteq> length s"
    and "find_newline (drop i s) = Some (start, width)"
  shows "iter_next \<lparr>text' = s, index = i\<rparr> =
    (let L = take start (drop i s) in
     if skipped L then iter_next \<lparr>text' = s, index = i + start + width\<rparr>
     else if ends_bslash L then
       rbind (eat_lines s (i + start + width) (butlast L)) (\<lambda>(joined, index').
       rbind (from_line (Owned joined)) (\<lambda>r. Inr (Some r, \<lparr>text' = s, index = index'\<rparr>)))
     else rbind (from_line (Borrowed L)) (\<lambda>r. Inr (Some r, \<lparr>text' = s, index = i + start + width\<rparr>)))"
proof -
  define L where "L = take start (drop i s)"
  have b: "is_char_boundary s i" using line_start_boundary [OF assms(1,3)] .
  note ne = assms(2)
  have g: "i \<noteq> length s - 1" using assms(4) ne by (cases s) auto
  from newline_at [OF assms(3,5)] have d: "drop i s = L @ take width (drop (i + start) s) @ drop (i + start + width) s"
    and lt: "i + start < length s" and asc: "is_ascii (s ! (i + start))"
    unfolding L_def by blast+
  have bs: "is_char_boundary s (i + start)" using lt asc by (rule boundary_ascii)
  have v: "valid_utf8 L" unfolding L_def using valid_utf8_between [OF assms(1) b] bs by simp
  have sk: "(starts_with (trim_start (drop i s)) [HASH] \<or> trim L = []) \<longleftrightarrow> skipped L"
    using skip_test [OF v] d by metis
  have sl: "str_slice s i (i + start) = Inr L" using b bs by (simp add: L_def)
  have p: "str_to s (i + start) = Inr (take (i + start) s)" using bs by simp
  have tst: "is_bslash (last_char (take (i + start) s)) \<longleftrightarrow> ends_bslash L"
    unfolding L_def by (rule bslash_at [OF assms(1,3) bs])
  have cont: "ends_bslash L \<Longrightarrow>
      usize_sub (i + start) 1 = Inr (i + start - 1) \<and> str_slice s i (i + start - 1) = Inr (butlast L)"
  proof -
    assume e: "ends_bslash L"
    then have L: "L \<noteq> []" "last L = BSLASH" by (simp_all add: ends_bslash_def)
    then have st: "0 < start" by (auto simp: L_def)
    have "s ! (i + start - 1) = BSLASH" using L lt st by (simp add: L_def last_conv_nth)
    then have "is_char_boundary s (i + start - 1)"
      using lt by (intro boundary_ascii) (simp_all add: is_ascii_def)
    with b st lt show ?thesis by (simp add: L_def butlast_take)
  qed
  note u = iter_next_unfold [of "\<lparr>text' = s, index = i\<rparr>"]
  show ?thesis
  proof (cases "skipped L")
    case True
    with sk sl u ne g b assms(5) show ?thesis by (auto simp: Let_def L_def [symmetric])
  next
    case False
    with sk have nc: "\<not> starts_with (trim_start (drop i s)) [HASH]" "trim L \<noteq> []" by auto
    show ?thesis
    proof (cases "ends_bslash L")
      case True
      with u ne g nc sl p tst cont b assms(5) False show ?thesis
        by (simp add: Let_def L_def [symmetric])
    next
      case nb: False
      with u ne g nc sl p tst b assms(5) False show ?thesis
        by (simp add: Let_def L_def [symmetric])
    qed
  qed
qed

subsection \<open>Simulation\<close>

text \<open>
  From a cursor at a line start or on the last byte, \<open>next\<close> returns \<open>None\<close> when
  \<open>iter_lines\<close> has no line left, and otherwise builds the first line and leaves the
  cursor where \<open>iter_lines\<close> has exactly the other lines left.
\<close>

lemma iter_next_refines:
  assumes "valid_utf8 s" and "s \<noteq> []" and "cursor_ok s i"
  shows "case iter_lines (drop i s) of
           [] \<Rightarrow> (\<exists>it'. iter_next \<lparr>text' = s, index = i\<rparr> = Inr (None, it'))
         | c # cs \<Rightarrow> (\<exists>j. cursor_ok s j \<and> iter_lines (drop j s) = cs \<and>
              iter_next \<lparr>text' = s, index = i\<rparr> =
                rbind (from_line c) (\<lambda>r. Inr (Some r, \<lparr>text' = s, index = j\<rparr>)))"
  using assms(3)
proof (induction "length s - i" arbitrary: i rule: less_induct)
  case less
  show ?case
  proof (cases "Suc i = length s")
    case True
    then have "iter_lines (drop i s) = []" by (intro iter_lines_short) simp
    moreover have "iter_next \<lparr>text' = s, index = i\<rparr> = Inr (None, \<lparr>text' = s, index = i\<rparr>)"
      using True assms(2) by (intro iter_next_guard) auto
    ultimately show ?thesis by simp
  next
    case g: False
    with less.prems have ls: "line_start s i" by (simp add: cursor_ok_def)
    show ?thesis
    proof (cases "find_newline (drop i s)")
      case None
      have nb: "\<forall>b \<in> set (drop i s). \<not> is_break b" using None find_newline_None by blast
      have "length (drop i s) \<noteq> 1" using g ls by (auto simp: line_start_def)
      then have il: "iter_lines (drop i s) = tail_line (drop i s)"
        by (simp add: iter_lines_no_break [OF nb] last_line_def)
      have c: "cursor_ok s (length s - 1)" "iter_lines (drop (length s - 1) s) = []"
        using assms(2) by (auto simp: cursor_ok_def intro: iter_lines_short)
      show ?thesis using iter_next_tail [OF assms(1,2) ls g None] il c by (auto simp: tail_line_def)
    next
      case (Some a)
      then obtain start width where f: "find_newline (drop i s) = Some (start, width)" by (cases a) auto
      define L where "L = take start (drop i s)"
      define i1 where "i1 = i + start + width"
      from newline_at [OF ls f] have d: "drop i s = L @ take width (drop (i + start) s) @ drop i1 s"
        and nb: "\<forall>b \<in> set L. \<not> is_break b"
        and lb: "line_break (take width (drop (i + start) s)) (drop i1 s)"
        and ls1: "line_start s i1"
        unfolding L_def i1_def by blast+
      have m: "length s - i1 < length s - i"
        using find_newline_bound [OF f] ls by (auto simp: i1_def line_start_def)
      have c1: "cursor_ok s i1" using ls1 by (simp add: cursor_ok_def)
      note IH = less.hyps [OF m c1]
      have il: "iter_lines (drop i s) =
        (if skipped L then iter_lines (drop i1 s)
         else if ends_bslash L then
           (case join (butlast L) (fst (phys (drop i1 s))) of
              (j, ls') \<Rightarrow> Owned j # logical ls' @ last_line (snd (phys (drop i1 s))))
         else Borrowed L # iter_lines (drop i1 s))"
        using iter_lines_line [OF nb lb] d by simp
      have nx: "iter_next \<lparr>text' = s, index = i\<rparr> =
        (if skipped L then iter_next \<lparr>text' = s, index = i1\<rparr>
         else if ends_bslash L then
           rbind (eat_lines s i1 (butlast L)) (\<lambda>(joined, index').
           rbind (from_line (Owned joined)) (\<lambda>r. Inr (Some r, \<lparr>text' = s, index = index'\<rparr>)))
         else rbind (from_line (Borrowed L)) (\<lambda>r. Inr (Some r, \<lparr>text' = s, index = i1\<rparr>)))"
        using iter_next_line [OF assms(1,2) ls g f] by (simp add: Let_def L_def i1_def)
      show ?thesis
      proof (cases "skipped L")
        case True
        with il nx have "iter_lines (drop i s) = iter_lines (drop i1 s)"
          "iter_next \<lparr>text' = s, index = i\<rparr> = iter_next \<lparr>text' = s, index = i1\<rparr>" by simp_all
        with IH show ?thesis by (simp only:)
      next
        case ns: False
        show ?thesis
        proof (cases "ends_bslash L")
          case True
          from eat_lines_join [OF assms(1) ls1, of "butlast L"] obtain k' where
            e: "eat_lines s i1 (butlast L) = Inr (fst (join (butlast L) (fst (phys (drop i1 s)))), k')"
            and lk: "line_start s k'"
            and pk: "phys (drop k' s) = (snd (join (butlast L) (fst (phys (drop i1 s)))), snd (phys (drop i1 s)))"
            by blast
          have "iter_lines (drop k' s) =
              logical (snd (join (butlast L) (fst (phys (drop i1 s))))) @ last_line (snd (phys (drop i1 s)))"
            by (simp add: iter_lines_def pk)
          with ns True il nx e lk show ?thesis
            by (auto simp: cursor_ok_def split: prod.split)
        next
          case False
          with ns il nx c1 show ?thesis by (simp, blast)
        qed
      qed
    qed
  qed
qed

lemma collect_refines:
  assumes "valid_utf8 s" and "s \<noteq> []" and "cursor_ok s i"
  shows "collect_requirements parse \<lparr>text' = s, index = i\<rparr> = parse_lines parse (iter_lines (drop i s))"
  using assms(3)
proof (induction "iter_lines (drop i s)" arbitrary: i)
  case Nil
  from iter_next_refines [OF assms(1,2) Nil.prems] Nil.hyps [symmetric]
  obtain it' where "iter_next \<lparr>text' = s, index = i\<rparr> = Inr (None, it')" by auto
  with Nil.hyps [symmetric] show ?case by (subst collect_requirements.simps) simp
next
  case (Cons c cs)
  from iter_next_refines [OF assms(1,2) Cons.prems] Cons.hyps(2) [symmetric]
  obtain j where j: "cursor_ok s j" "iter_lines (drop j s) = cs" and
    n: "iter_next \<lparr>text' = s, index = i\<rparr> = rbind (from_line c) (\<lambda>r. Inr (Some r, \<lparr>text' = s, index = j\<rparr>))"
    by auto
  have IH: "collect_requirements parse \<lparr>text' = s, index = j\<rparr> = parse_lines parse cs"
    using Cons.hyps(1) [of j] j by simp
  show ?case
    by (subst collect_requirements.simps)
       (simp add: n IH Cons.hyps(2) [symmetric] rbind_def split: sum.split)
qed

text \<open>The cursor invariant is preserved by one call of \<open>next\<close>.\<close>

lemma iter_next_cursor_ok:
  assumes "valid_utf8 s" and "s \<noteq> []" and "cursor_ok s i"
    and "iter_next \<lparr>text' = s, index = i\<rparr> = Inr (x, it')"
  shows "text' it' = s \<and> cursor_ok s (index it')"
proof (cases x)
  case None
  with iter_next_Inr [OF assms(4)] show ?thesis by (simp add: cursor_ok_def)
next
  case (Some r)
  from iter_next_refines [OF assms(1-3)] assms(4) Some obtain c j where
    j: "cursor_ok s j" and
    e: "rbind (from_line c) (\<lambda>r. Inr (Some r, \<lparr>text' = s, index = j\<rparr>)) = Inr (x, it')"
    by (cases "iter_lines (drop i s)") auto
  from e have "it' = \<lparr>text' = s, index = j\<rparr>" by (auto simp: rbind_eq_Inr)
  with j show ?thesis by simp
qed

lemma iter_lines_spec:
  assumes "\<forall>l \<in> set (fst (phys r)). skipped l \<longrightarrow> \<not> ends_bslash l"
    and "snd (phys r) = [] \<or> \<not> open_chain (fst (phys r))" and "length (snd (phys r)) \<noteq> 1"
  shows "iter_lines r = spec_lines r"
  using assms logical_spec_logical [of "fst (phys r)" "snd (phys r)"]
  by (cases "phys r") (simp add: iter_lines_def spec_lines_def physical_lines_def last_line_def)

lemma iter_lines_one_byte:
  "snd (phys r) = [b] \<Longrightarrow> iter_lines r = logical (fst (phys r))"
  by (cases "phys r") (simp add: iter_lines_def last_line_def)

lemma from_str_Nil: "from_str parse [] = Inl Arith_overflow"
  by (simp add: from_str_def iter_new_def collect_requirements.simps iter_next_empty)

text \<open>\<open>Requirements::from_str\<close> in closed form, for every parser.\<close>

lemma from_str_eq:
  assumes "valid_utf8 s" and "s \<noteq> []"
  shows "from_str parse s = rbind (parse_lines parse (iter_lines s)) (\<lambda>v. Inr (map_sum id Requirements v))"
proof -
  have "cursor_ok s 0" by (simp add: cursor_ok_def line_start_def)
  from collect_refines [OF assms this, where parse = parse] show ?thesis
    by (simp add: from_str_def iter_new_def)
qed

text \<open>Splitting off the first physical line.\<close>

lemma physical_lines_line:
  assumes "\<forall>b \<in> set l. \<not> is_break b" and "line_break brk rest"
  shows "physical_lines (l @ brk @ rest) = (l, True) # physical_lines rest"
  using phys_line [OF assms] by (simp add: physical_lines_def split: prod.split)

lemma line_break_nonempty: "line_break brk rest \<Longrightarrow> l @ brk @ rest \<noteq> []"
  by (auto simp: line_break_def)

lemma valid_utf8_after_line:
  assumes "valid_utf8 (l @ brk @ rest)" and "line_break brk rest"
  shows "valid_utf8 rest"
proof -
  have a: "brk \<noteq> []" "\<forall>b \<in> set brk. is_ascii b" using assms(2) by (auto simp: line_break_def is_ascii_def)
  let ?s = "l @ brk @ rest"
  have "length l < length ?s" "is_ascii (?s ! length l)" using a by (auto simp: nth_append neq_Nil_conv)
  then have "is_char_boundary ?s (length l)" by (rule boundary_ascii)
  from valid_utf8_boundary_split [OF assms(1) this] have "valid_utf8 (brk @ rest)" by simp
  then show ?thesis using a(2) by (induction brk) auto
qed

text \<open>Evaluation of the model on concrete ASCII texts.\<close>

lemmas ascii_eval = is_ascii_def is_break_def is_whitespace_def phys.simps(2) skipped_def
  trim_Nil_iff trim_start_ascii_Cons chars_ascii_Cons iter_lines_def last_line_def tail_line_def
  ends_bslash_def logical.simps(2) parse_lines_Cons_strip strip_trivia_eq comment_at_start_def
  hash_marker_def starts_with_def spec_lines_def physical_lines_def spec_logical.simps(2)
  open_chain_def

end
