(* ===== verification/Pip_Compile.thy ===== *)
theory Pip_Compile
  imports Refinement
begin

text \<open>
  The inputs of the snapshot tests. \<open>tests::simple\<close> (lines 201--205) parses
  \<open>simple_text\<close>, the one line \<open>flask==2.0\<close>.
  \<open>tests::pip_compile\<close> (lines 208--290): its input, a
  \<open>requirements.txt\<close> written by \<open>pip-compile --generate-hashes\<close>, as
  \<open>pip_compile_text\<close>, one string per physical line in \<open>pip_compile_lines\<close>. The
  theorem computes the requirements the test parses: eleven chains, each a pinned requirement
  continued by \<open>--hash\<close> lines and followed by \<open># via\<close> comments, give eleven clean spans,
  each cut before its first \<open>--hash\<close>. The snapshot itself is the external parser's
  \<open>Debug\<close> output and is not modelled; the identity parser shows the spans it receives.
\<close>
definition simple_text :: str where
  "simple_text = ''flask==2.0''"

definition pip_compile_lines :: "str list" where
  "pip_compile_lines =
    [''#'',
     ''# This file is autogenerated by pip-compile with Python 3.7'',
     ''# by the following command:'',
     ''#'',
     ''#    pip-compile --generate-hashes --output-file=requirements.txt --resolver=backtracking pyproject.toml'',
     ''#'',
     ''attrs==23.1.0 '' @ [BSLASH],
     ''    --hash=sha256:1f28b4522cdc2fb4256ac1a020c78acf9cba2c6b461ccd2c126f3aa8e8335d04 '' @ [BSLASH],
     ''    --hash=sha256:6279836d581513a26f1bf235f9acd333bc9115683f14f7e8fae46c98fc50e015'',
     ''    # via'',
     ''    #   cattrs'',
     ''    #   lsprotocol'',
     ''cattrs==23.1.2 '' @ [BSLASH],
     ''    --hash=sha256:b2bb14311ac17bed0d58785e5a60f022e5431aca3932e3fc5cc8ed8639de50a4 '' @ [BSLASH],
     ''    --hash=sha256:db1c821b8c537382b2c7c66678c3790091ca0275ac486c76f3c8f3920e83c657'',
     ''    # via lsprotocol'',
     ''exceptiongroup==1.1.3 '' @ [BSLASH],
     ''    --hash=sha256:097acd85d473d75af5bb98e41b61ff7fe35efe6675e4f9370ec6ec5126d160e9 '' @ [BSLASH],
     ''    --hash=sha256:343280667a4585d195ca1cf9cef84a4e178c4b6cf2274caef9859782b567d5e3'',
     ''    # via cattrs'',
     ''importlib-metadata==6.7.0 '' @ [BSLASH],
     ''    --hash=sha256:1aaf550d4f73e5d6783e7acb77aec43d49da8017410afae93822cc9cca98c4d4 '' @ [BSLASH],
     ''    --hash=sha256:cb52082e659e97afc5dac71e79de97d8681de3aa07ff18578330904a9d18e5b5'',
     ''    # via'',
     ''    #   attrs'',
     ''    #   typeguard'',
     ''lsprotocol==2023.0.0b1 '' @ [BSLASH],
     ''    --hash=sha256:ade2cd0fa0ede7965698cb59cd05d3adbd19178fd73e83f72ef57a032fbb9d62 '' @ [BSLASH],
     ''    --hash=sha256:f7a2d4655cbd5639f373ddd1789807450c543341fa0a32b064ad30dbb9f510d4'',
     ''    # via'',
     ''    #   pygls'',
     ''    #   ruff-lsp (pyproject.toml)'',
     ''packaging==23.2 '' @ [BSLASH],
     ''    --hash=sha256:048fb0e9405036518eaaf48a55953c750c11e1a1b68e0dd1a9d62ed0c092cfc5 '' @ [BSLASH],
     ''    --hash=sha256:8c491190033a9af7e1d931d0b5dacc2ef47509b34dd0de67ed209b5203fc88c7'',
     ''    # via ruff-lsp (pyproject.toml)'',
     ''pygls==1.1.0 '' @ [BSLASH],
     ''    --hash=sha256:70acb6fe0df1c8a17b7ce08daa0afdb4aedc6913a6a6696003e1434fda80a06e '' @ [BSLASH],
     ''    --hash=sha256:eb19b818039d3d705ec8adbcdf5809a93af925f30cd7a3f3b7573479079ba00e'',
     ''    # via ruff-lsp (pyproject.toml)'',
     ''ruff==0.0.292 '' @ [BSLASH],
     ''    --hash=sha256:02f29db018c9d474270c704e6c6b13b18ed0ecac82761e4fcf0faa3728430c96 '' @ [BSLASH],
     ''    --hash=sha256:1093449e37dd1e9b813798f6ad70932b57cf614e5c2b5c51005bf67d55db33ac '' @ [BSLASH],
     ''    --hash=sha256:69654e564342f507edfa09ee6897883ca76e331d4bbc3676d8a8403838e9fade '' @ [BSLASH],
     ''    --hash=sha256:6bdfabd4334684a4418b99b3118793f2c13bb67bf1540a769d7816410402a205 '' @ [BSLASH],
     ''    --hash=sha256:6c3c91859a9b845c33778f11902e7b26440d64b9d5110edd4e4fa1726c41e0a4 '' @ [BSLASH],
     ''    --hash=sha256:7f67a69c8f12fbc8daf6ae6d36705037bde315abf8b82b6e1f4c9e74eb750f68 '' @ [BSLASH],
     ''    --hash=sha256:87616771e72820800b8faea82edd858324b29bb99a920d6aa3d3949dd3f88fb0 '' @ [BSLASH],
     ''    --hash=sha256:8e087b24d0d849c5c81516ec740bf4fd48bf363cfb104545464e0fca749b6af9 '' @ [BSLASH],
     ''    --hash=sha256:9889bac18a0c07018aac75ef6c1e6511d8411724d67cb879103b01758e110a81 '' @ [BSLASH],
     ''    --hash=sha256:aa7c77c53bfcd75dbcd4d1f42d6cabf2485d2e1ee0678da850f08e1ab13081a8 '' @ [BSLASH],
     ''    --hash=sha256:ac153eee6dd4444501c4bb92bff866491d4bfb01ce26dd2fff7ca472c8df9ad0 '' @ [BSLASH],
     ''    --hash=sha256:b76deb3bdbea2ef97db286cf953488745dd6424c122d275f05836c53f62d4016 '' @ [BSLASH],
     ''    --hash=sha256:be8eb50eaf8648070b8e58ece8e69c9322d34afe367eec4210fdee9a555e4ca7 '' @ [BSLASH],
     ''    --hash=sha256:e854b05408f7a8033a027e4b1c7f9889563dd2aca545d13d06711e5c39c3d003 '' @ [BSLASH],
     ''    --hash=sha256:f160b5ec26be32362d0774964e218f3fcf0a7da299f7e220ef45ae9e3e67101a '' @ [BSLASH],
     ''    --hash=sha256:f27282bedfd04d4c3492e5c3398360c9d86a295be00eccc63914438b4ac8a83c '' @ [BSLASH],
     ''    --hash=sha256:f4476f1243af2d8c29da5f235c13dca52177117935e1f9393f9d90f9833f69e4'',
     ''    # via ruff-lsp (pyproject.toml)'',
     ''typeguard==3.0.2 '' @ [BSLASH],
     ''    --hash=sha256:bbe993854385284ab42fd5bd3bee6f6556577ce8b50696d6cb956d704f286c8e '' @ [BSLASH],
     ''    --hash=sha256:fee5297fdb28f8e9efcb8142b5ee219e02375509cd77ea9d270b5af826358d5a'',
     ''    # via pygls'',
     ''typing-extensions==4.7.1 '' @ [BSLASH],
     ''    --hash=sha256:440d5dd3af93b060174bf433bccd69b0babc3b15b1a8dca43789fd7f61514b36 '' @ [BSLASH],
     ''    --hash=sha256:b75ddc264f0ba5615db7ba217daeb99701ad295353c45f9e95963337ceeeffb2'',
     ''    # via'',
     ''    #   cattrs'',
     ''    #   importlib-metadata'',
     ''    #   ruff-lsp (pyproject.toml)'',
     ''    #   typeguard'',
     ''zipp==3.15.0 '' @ [BSLASH],
     ''    --hash=sha256:112929ad649da941c23de50f356a2b5570c954b65150642bccdd66bf194d224b '' @ [BSLASH],
     ''    --hash=sha256:48904fc76a60e542af151aded95726c1a5c34ed43ab4134b597665c86d7ad556'',
     ''    # via importlib-metadata'']"
definition pip_compile_text :: str where
  "pip_compile_text = LF # concat (map (\<lambda>l. l @ [LF]) pip_compile_lines)"

subsection \<open>Texts of terminated ASCII lines\<close>

lemma valid_utf8_concat:
  "\<forall>x \<in> set xs. valid_utf8 x \<Longrightarrow> valid_utf8 (concat xs)"
  by (induction xs) (simp_all add: valid_utf8_append)

lemma phys_terminated:
  "\<forall>l \<in> set ls. \<forall>b \<in> set l. \<not> is_break b \<Longrightarrow> phys (concat (map (\<lambda>l. l @ [LF]) ls)) = (ls, [])"
proof (induction ls)
  case (Cons l ls)
  have "line_break [LF] (concat (map (\<lambda>l. l @ [LF]) ls))" by (simp add: line_break_def)
  from phys_line [OF _ this, of l] Cons show ?case by simp
qed simp

lemma pip_compile_lines_ascii: "\<forall>l \<in> set pip_compile_lines. \<forall>b \<in> set l. \<not> is_break b \<and> is_ascii b"
  by (simp add: pip_compile_lines_def is_break_def is_ascii_def)

subsection \<open>The tests\<close>

text \<open>The input of \<open>tests::simple\<close> gives one requirement, parsed from the whole text.\<close>

lemma simple_requirements:
  "from_str parse simple_text =
     (case parse ''flask==2.0'' of Inl e \<Rightarrow> Inr (Inl e) | Inr r \<Rightarrow> Inr (Inr (Requirements [r])))"
  unfolding simple_text_def
  by (subst from_str_eq) (simp_all add: ascii_eval del: parse_lines.simps(2) split: sum.split)

text \<open>
  On the input of the \<open>pip_compile\<close> test, \<open>from_str\<close> hands the parser exactly
  the eleven pinned requirements, each followed by the five spaces left before its first
  \<open>--hash\<close>, in the order of the file, and returns them all.
\<close>

lemma pip_compile_requirements: "from_str (Inr :: str \<Rightarrow> unit + str) pip_compile_text =
   Inr (Inr (Requirements [''attrs==23.1.0     '', ''cattrs==23.1.2     '', ''exceptiongroup==1.1.3     '', ''importlib-metadata==6.7.0     '', ''lsprotocol==2023.0.0b1     '', ''packaging==23.2     '', ''pygls==1.1.0     '', ''ruff==0.0.292     '', ''typeguard==3.0.2     '', ''typing-extensions==4.7.1     '', ''zipp==3.15.0     '']))"
proof -
  have v: "valid_utf8 pip_compile_text"
  proof -
    have "\<forall>x \<in> set (map (\<lambda>l. l @ [LF]) pip_compile_lines). valid_utf8 x"
    proof
      fix x assume "x \<in> set (map (\<lambda>l. l @ [LF]) pip_compile_lines)"
      then obtain l where "l \<in> set pip_compile_lines" "x = l @ [LF]" by auto
      moreover have "\<forall>b \<in> set l. is_ascii b \<Longrightarrow> valid_utf8 l" for l
        by (induction l) auto
      ultimately show "valid_utf8 x" using pip_compile_lines_ascii by (simp add: valid_utf8_append is_ascii_def)
    qed
    then show ?thesis by (simp add: pip_compile_text_def valid_utf8_concat is_ascii_def)
  qed
  have ph: "phys pip_compile_text = ([] # pip_compile_lines, [])"
  proof -
    have "phys ([] @ [LF] @ concat (map (\<lambda>l. l @ [LF]) pip_compile_lines)) =
        ([] # fst (phys (concat (map (\<lambda>l. l @ [LF]) pip_compile_lines))),
         snd (phys (concat (map (\<lambda>l. l @ [LF]) pip_compile_lines))))"
      by (rule phys_line) (simp_all add: line_break_def)
    with phys_terminated pip_compile_lines_ascii show ?thesis by (simp add: pip_compile_text_def)
  qed
  have "iter_lines pip_compile_text = logical ([] # pip_compile_lines)"
    by (simp add: iter_lines_def ph last_line_def tail_line_def)
  also have "\<dots> =
    [Owned ''attrs==23.1.0     --hash=sha256:1f28b4522cdc2fb4256ac1a020c78acf9cba2c6b461ccd2c126f3aa8e8335d04     --hash=sha256:6279836d581513a26f1bf235f9acd333bc9115683f14f7e8fae46c98fc50e015'',
     Owned ''cattrs==23.1.2     --hash=sha256:b2bb14311ac17bed0d58785e5a60f022e5431aca3932e3fc5cc8ed8639de50a4     --hash=sha256:db1c821b8c537382b2c7c66678c3790091ca0275ac486c76f3c8f3920e83c657'',
     Owned ''exceptiongroup==1.1.3     --hash=sha256:097acd85d473d75af5bb98e41b61ff7fe35efe6675e4f9370ec6ec5126d160e9     --hash=sha256:343280667a4585d195ca1cf9cef84a4e178c4b6cf2274caef9859782b567d5e3'',
     Owned ''importlib-metadata==6.7.0     --hash=sha256:1aaf550d4f73e5d6783e7acb77aec43d49da8017410afae93822cc9cca98c4d4     --hash=sha256:cb52082e659e97afc5dac71e79de97d8681de3aa07ff18578330904a9d18e5b5'',
     Owned ''lsprotocol==2023.0.0b1     --hash=sha256:ade2cd0fa0ede7965698cb59cd05d3adbd19178fd73e83f72ef57a032fbb9d62     --hash=sha256:f7a2d4655cbd5639f373ddd1789807450c543341fa0a32b064ad30dbb9f510d4'',
     Owned ''packaging==23.2     --hash=sha256:048fb0e9405036518eaaf48a55953c750c11e1a1b68e0dd1a9d62ed0c092cfc5     --hash=sha256:8c491190033a9af7e1d931d0b5dacc2ef47509b34dd0de67ed209b5203fc88c7'',
     Owned ''pygls==1.1.0     --hash=sha256:70acb6fe0df1c8a17b7ce08daa0afdb4aedc6913a6a6696003e1434fda80a06e     --hash=sha256:eb19b818039d3d705ec8adbcdf5809a93af925f30cd7a3f3b7573479079ba00e'',
     Owned ''ruff==0.0.292     --hash=sha256:02f29db018c9d474270c704e6c6b13b18ed0ecac82761e4fcf0faa3728430c96     --hash=sha256:1093449e37dd1e9b813798f6ad70932b57cf614e5c2b5c51005bf67d55db33ac     --hash=sha256:69654e564342f507edfa09ee6897883ca76e331d4bbc3676d8a8403838e9fade     --hash=sha256:6bdfabd4334684a4418b99b3118793f2c13bb67bf1540a769d7816410402a205     --hash=sha256:6c3c91859a9b845c33778f11902e7b26440d64b9d5110edd4e4fa1726c41e0a4     --hash=sha256:7f67a69c8f12fbc8daf6ae6d36705037bde315abf8b82b6e1f4c9e74eb750f68     --hash=sha256:87616771e72820800b8faea82edd858324b29bb99a920d6aa3d3949dd3f88fb0     --hash=sha256:8e087b24d0d849c5c81516ec740bf4fd48bf363cfb104545464e0fca749b6af9     --hash=sha256:9889bac18a0c07018aac75ef6c1e6511d8411724d67cb879103b01758e110a81     --hash=sha256:aa7c77c53bfcd75dbcd4d1f42d6cabf2485d2e1ee0678da850f08e1ab13081a8     --hash=sha256:ac153eee6dd4444501c4bb92bff866491d4bfb01ce26dd2fff7ca472c8df9ad0     --hash=sha256:b76deb3bdbea2ef97db286cf953488745dd6424c122d275f05836c53f62d4016     --hash=sha256:be8eb50eaf8648070b8e58ece8e69c9322d34afe367eec4210fdee9a555e4ca7     --hash=sha256:e854b05408f7a8033a027e4b1c7f9889563dd2aca545d13d06711e5c39c3d003     --hash=sha256:f160b5ec26be32362d0774964e218f3fcf0a7da299f7e220ef45ae9e3e67101a     --hash=sha256:f27282bedfd04d4c3492e5c3398360c9d86a295be00eccc63914438b4ac8a83c     --hash=sha256:f4476f1243af2d8c29da5f235c13dca52177117935e1f9393f9d90f9833f69e4'',
     Owned ''typeguard==3.0.2     --hash=sha256:bbe993854385284ab42fd5bd3bee6f6556577ce8b50696d6cb956d704f286c8e     --hash=sha256:fee5297fdb28f8e9efcb8142b5ee219e02375509cd77ea9d270b5af826358d5a'',
     Owned ''typing-extensions==4.7.1     --hash=sha256:440d5dd3af93b060174bf433bccd69b0babc3b15b1a8dca43789fd7f61514b36     --hash=sha256:b75ddc264f0ba5615db7ba217daeb99701ad295353c45f9e95963337ceeeffb2'',
     Owned ''zipp==3.15.0     --hash=sha256:112929ad649da941c23de50f356a2b5570c954b65150642bccdd66bf194d224b     --hash=sha256:48904fc76a60e542af151aded95726c1a5c34ed43ab4134b597665c86d7ad556'']"
    by (simp add: pip_compile_lines_def ascii_eval)
  finally have il: "iter_lines pip_compile_text =
    [Owned ''attrs==23.1.0     --hash=sha256:1f28b4522cdc2fb4256ac1a020c78acf9cba2c6b461ccd2c126f3aa8e8335d04     --hash=sha256:6279836d581513a26f1bf235f9acd333bc9115683f14f7e8fae46c98fc50e015'',
     Owned ''cattrs==23.1.2     --hash=sha256:b2bb14311ac17bed0d58785e5a60f022e5431aca3932e3fc5cc8ed8639de50a4     --hash=sha256:db1c821b8c537382b2c7c66678c3790091ca0275ac486c76f3c8f3920e83c657'',
     Owned ''exceptiongroup==1.1.3     --hash=sha256:097acd85d473d75af5bb98e41b61ff7fe35efe6675e4f9370ec6ec5126d160e9     --hash=sha256:343280667a4585d195ca1cf9cef84a4e178c4b6cf2274caef9859782b567d5e3'',
     Owned ''importlib-metadata==6.7.0     --hash=sha256:1aaf550d4f73e5d6783e7acb77aec43d49da8017410afae93822cc9cca98c4d4     --hash=sha256:cb52082e659e97afc5dac71e79de97d8681de3aa07ff18578330904a9d18e5b5'',
     Owned ''lsprotocol==2023.0.0b1     --hash=sha256:ade2cd0fa0ede7965698cb59cd05d3adbd19178fd73e83f72ef57a032fbb9d62     --hash=sha256:f7a2d4655cbd5639f373ddd1789807450c543341fa0a32b064ad30dbb9f510d4'',
     Owned ''packaging==23.2     --hash=sha256:048fb0e9405036518eaaf48a55953c750c11e1a1b68e0dd1a9d62ed0c092cfc5     --hash=sha256:8c491190033a9af7e1d931d0b5dacc2ef47509b34dd0de67ed209b5203fc88c7'',
     Owned ''pygls==1.1.0     --hash=sha256:70acb6fe0df1c8a17b7ce08daa0afdb4aedc6913a6a6696003e1434fda80a06e     --hash=sha256:eb19b818039d3d705ec8adbcdf5809a93af925f30cd7a3f3b7573479079ba00e'',
     Owned ''ruff==0.0.292     --hash=sha256:02f29db018c9d474270c704e6c6b13b18ed0ecac82761e4fcf0faa3728430c96     --hash=sha256:1093449e37dd1e9b813798f6ad70932b57cf614e5c2b5c51005bf67d55db33ac     --hash=sha256:69654e564342f507edfa09ee6897883ca76e331d4bbc3676d8a8403838e9fade     --hash=sha256:6bdfabd4334684a4418b99b3118793f2c13bb67bf1540a769d7816410402a205     --hash=sha256:6c3c91859a9b845c33778f11902e7b26440d64b9d5110edd4e4fa1726c41e0a4     --hash=sha256:7f67a69c8f12fbc8daf6ae6d36705037bde315abf8b82b6e1f4c9e74eb750f68     --hash=sha256:87616771e72820800b8faea82edd858324b29bb99a920d6aa3d3949dd3f88fb0     --hash=sha256:8e087b24d0d849c5c81516ec740bf4fd48bf363cfb104545464e0fca749b6af9     --hash=sha256:9889bac18a0c07018aac75ef6c1e6511d8411724d67cb879103b01758e110a81     --hash=sha256:aa7c77c53bfcd75dbcd4d1f42d6cabf2485d2e1ee0678da850f08e1ab13081a8     --hash=sha256:ac153eee6dd4444501c4bb92bff866491d4bfb01ce26dd2fff7ca472c8df9ad0     --hash=sha256:b76deb3bdbea2ef97db286cf953488745dd6424c122d275f05836c53f62d4016     --hash=sha256:be8eb50eaf8648070b8e58ece8e69c9322d34afe367eec4210fdee9a555e4ca7     --hash=sha256:e854b05408f7a8033a027e4b1c7f9889563dd2aca545d13d06711e5c39c3d003     --hash=sha256:f160b5ec26be32362d0774964e218f3fcf0a7da299f7e220ef45ae9e3e67101a     --hash=sha256:f27282bedfd04d4c3492e5c3398360c9d86a295be00eccc63914438b4ac8a83c     --hash=sha256:f4476f1243af2d8c29da5f235c13dca52177117935e1f9393f9d90f9833f69e4'',
     Owned ''typeguard==3.0.2     --hash=sha256:bbe993854385284ab42fd5bd3bee6f6556577ce8b50696d6cb956d704f286c8e     --hash=sha256:fee5297fdb28f8e9efcb8142b5ee219e02375509cd77ea9d270b5af826358d5a'',
     Owned ''typing-extensions==4.7.1     --hash=sha256:440d5dd3af93b060174bf433bccd69b0babc3b15b1a8dca43789fd7f61514b36     --hash=sha256:b75ddc264f0ba5615db7ba217daeb99701ad295353c45f9e95963337ceeeffb2'',
     Owned ''zipp==3.15.0     --hash=sha256:112929ad649da941c23de50f356a2b5570c954b65150642bccdd66bf194d224b     --hash=sha256:48904fc76a60e542af151aded95726c1a5c34ed43ab4134b597665c86d7ad556'']" .
  show ?thesis
    using from_str_eq [OF v, where parse = "Inr :: str \<Rightarrow> unit + str"] il
    by (simp add: pip_compile_text_def ascii_eval del: parse_lines.simps(2))
qed
end
