(* ===== verification/Spec_Strip.thy ===== *)
theory Spec_Strip
  imports Refinement
begin

text \<open>
  The Trivia Stripper as the specification states it (section 4.2), and the whole pipeline
  read from the specification alone. \<open>spec_clean_len\<close> looks only at the first \<open>#\<close>: it
  truncates there when the character before it is whitespace, never at position 0, and then
  cuts at the first \<open>--hash\<close>. \<open>spec_collect\<close> is the builder of section 4.3, which cannot
  panic: it parses each clean span and stops at the first error. \<open>spec_from_str\<close> applies it
  to the logical lines \<open>spec_lines\<close> of section 4.1. \<open>parse_lines_spec_collect\<close> is the
  equivalence of the code's builder with this one on lines without \<open>#\<close>, proved by list
  induction.
\<close>

definition spec_clean_len :: "str \<Rightarrow> nat" where
  "spec_clean_len l =
    (let n = (case str_find l [HASH] of
                None \<Rightarrow> length l
              | Some p \<Rightarrow> if 0 < p \<and> is_some_and is_whitespace (last_char (take p l)) then p else length l)
     in case str_find (take n l) hash_marker of Some i \<Rightarrow> i | None \<Rightarrow> n)"

fun spec_collect :: "(str \<Rightarrow> 'e + 'r) \<Rightarrow> str list \<Rightarrow> 'e + 'r list" where
  "spec_collect parse [] = Inr []"
| "spec_collect parse (l # ls) =
    (case parse (take (spec_clean_len l) l) of
       Inl e \<Rightarrow> Inl e
     | Inr r \<Rightarrow> map_sum id (Cons r) (spec_collect parse ls))"

definition spec_from_str :: "(str \<Rightarrow> 'e + 'r) \<Rightarrow> str \<Rightarrow> 'e + 'r requirements" where
  "spec_from_str parse s = map_sum id Requirements (spec_collect parse (map cow_str (spec_lines s)))"

lemma str_find_single_None: "b \<notin> set s \<Longrightarrow> str_find s [b] = None"
  by (induction s) (auto simp: starts_with_single)

lemma spec_clean_len_no_hash:
  "HASH \<notin> set l \<Longrightarrow>
     spec_clean_len l = (case str_find l hash_marker of Some i \<Rightarrow> i | None \<Rightarrow> length l)"
  by (simp add: spec_clean_len_def str_find_single_None)

lemma parse_lines_spec_collect:
  "\<forall>c \<in> set cs. HASH \<notin> set (cow_str c) \<Longrightarrow>
     parse_lines parse cs = Inr (spec_collect parse (map cow_str cs))"
proof (induction cs)
  case Nil
  then show ?case by simp
next
  case (Cons c cs)
  then have h: "HASH \<notin> set (cow_str c)" and IH: "parse_lines parse cs = Inr (spec_collect parse (map cow_str cs))"
    by simp_all
  show ?case
    by (simp add: parse_lines_Cons_strip strip_trivia_no_hash [OF h] spec_clean_len_no_hash [OF h] IH
        del: parse_lines.simps(2) split: sum.split)
qed

text \<open>
  C17: refinement of the whole specification: on a well-formed non-empty text that meets
  the hypotheses of C1 and in which no surviving logical line contains \<open>#\<close>,
  \<open>Requirements::from_str\<close> does not panic and returns exactly what the specification's
  builder returns over the specification's logical lines and clean spans (sections 4.1 to
  4.3), with no code definition on the specification's side.
\<close>

theorem from_str_spec_refines:
  assumes "valid_utf8 s" and "s \<noteq> []"
    and "\<forall>l \<in> set (fst (phys s)). skipped l \<longrightarrow> \<not> ends_bslash l"
    and "snd (phys s) = [] \<or> \<not> open_chain (fst (phys s))" and "length (snd (phys s)) \<noteq> 1"
    and "\<forall>c \<in> set (spec_lines s). HASH \<notin> set (cow_str c)"
  shows "from_str parse s = Inr (spec_from_str parse s)"
  using from_str_eq [OF assms(1,2), where parse = parse] iter_lines_spec [OF assms(3-5)]
        parse_lines_spec_collect [OF assms(6), where parse = parse]
  by (simp add: spec_from_str_def)

theorem from_str_spec_refines_witness:
  "from_str (Inr :: str \<Rightarrow> unit + str) (''a==1'' @ [LF] @ ''# n'' @ [LF] @ ''b==2 --hash=x'') =
     Inr (spec_from_str Inr (''a==1'' @ [LF] @ ''# n'' @ [LF] @ ''b==2 --hash=x'')) \<and>
   spec_from_str (Inr :: str \<Rightarrow> unit + str) (''a==1'' @ [LF] @ ''# n'' @ [LF] @ ''b==2 --hash=x'') =
     Inr (Requirements [''a==1'', ''b==2 ''])"
proof -
  have v: "valid_utf8 (''a==1'' @ [LF] @ ''# n'' @ [LF] @ ''b==2 --hash=x'')" by (simp add: is_ascii_def)
  have l: "spec_lines (''a==1'' @ [LF] @ ''# n'' @ [LF] @ ''b==2 --hash=x'') =
      [Borrowed ''a==1'', Borrowed ''b==2 --hash=x'']"
    by (simp add: ascii_eval)
  have e: "spec_from_str (Inr :: str \<Rightarrow> unit + str) (''a==1'' @ [LF] @ ''# n'' @ [LF] @ ''b==2 --hash=x'') =
     Inr (Requirements [''a==1'', ''b==2 ''])"
    unfolding spec_from_str_def l by (simp add: spec_clean_len_def starts_with_def hash_marker_def)
  have "from_str (Inr :: str \<Rightarrow> unit + str) (''a==1'' @ [LF] @ ''# n'' @ [LF] @ ''b==2 --hash=x'') =
     Inr (spec_from_str Inr (''a==1'' @ [LF] @ ''# n'' @ [LF] @ ''b==2 --hash=x''))"
    by (rule from_str_spec_refines [OF v]) (simp_all add: ascii_eval)
  with e show ?thesis by simp
qed

lemma str_find_hash_marker_pos:
  assumes "l \<noteq> []" and "hd l = HASH" and "str_find l hash_marker = Some i"
  shows "0 < i"
proof (rule ccontr)
  assume "\<not> 0 < i"
  with str_find_Some [OF assms(3)] have "starts_with l hash_marker" by simp
  with assms(1,2) show False by (simp add: starts_with_Cons_iff)
qed

text \<open>
  C18: the code and the specification disagree on a line that begins with \<open>#\<close> and ends
  in whitespace: the code checks the character before \<open>len + position\<close>, the end of the
  line, instead of the character before the \<open>#\<close>, and cuts the whole line (clean span 0);
  the specification never truncates at a \<open>#\<close> in first position, so its clean span is not
  empty. \<open>from_str\<close> reaches this case through a continuation chain
  (\<open>from_str_leading_hash_reached\<close>).
\<close>

theorem strip_trivia_leading_hash:
  assumes "comment_at_start l"
  shows "strip_trivia l = Inr 0 \<and> 0 < spec_clean_len l"
proof -
  from assms obtain t where l: "l = HASH # t" by (cases l) (auto simp: comment_at_start_def)
  have f: "str_find l [HASH] = Some 0" by (simp add: l starts_with_single)
  have "0 < (case str_find l hash_marker of Some i \<Rightarrow> i | None \<Rightarrow> length l)"
    using str_find_hash_marker_pos [of l] l by (auto split: option.split)
  then have "0 < spec_clean_len l" by (simp add: spec_clean_len_def f)
  with assms show ?thesis by (simp add: strip_trivia_eq)
qed

theorem strip_trivia_leading_hash_witness:
  "comment_at_start ''#x '' \<and> strip_trivia ''#x '' = Inr 0 \<and> spec_clean_len ''#x '' = 3"
proof -
  have c: "comment_at_start ''#x ''" by (simp add: comment_at_start_def last_char_def is_ascii_def
      chars_ascii_Cons is_whitespace_def is_some_and_def)
  have "spec_clean_len ''#x '' = 3"
    by (simp add: spec_clean_len_def starts_with_def hash_marker_def)
  with strip_trivia_leading_hash [OF c] c show ?thesis by simp
qed

text \<open>
  The case of C18 is reached from \<open>from_str\<close>: after a line that is a lone backslash, the
  joined line is \<open>"# x "\<close>, and the parser receives the empty string.
\<close>

lemma from_str_leading_hash_reached:
  "from_str (Inr :: str \<Rightarrow> unit + str) ([BSLASH, LF] @ ''# x '' @ [LF]) = Inr (Inr (Requirements [[]]))"
  by (subst from_str_eq) (simp_all add: ascii_eval last_char_def is_some_and_def del: parse_lines.simps(2))

end
