(* ===== verification/Spec2Isabelle.thy ===== *)
theory Spec2Isabelle
  imports Pip_Compile Spec_Strip
begin

text \<open>
  A verification development for the requirements-file parser of the \<open>puffin-requirements\<close>
  crate, \<open>src/crates/puffin-requirements/src/lib.rs\<close> (the whole crate is this one file).
  The crate turns the text of a \<open>requirements.txt\<close> into a list of PEP 508 requirements.
  \<open>RequirementsIterator\<close> splits the text into logical lines: it skips comment and blank
  lines and joins lines continued by a backslash before the line break, locating breaks with
  \<open>find_newline\<close>. \<open>RequirementLine::from_line\<close> runs \<open>strip_trivia\<close> on each logical
  line to cut it before its comment and its \<open>--hash\<close> options. \<open>Requirements::from_str\<close>
  passes each clean span to the external PEP 508 parser and collects the results, stopping at
  the first error.

  \<^bold>\<open>Model.\<close> A Rust \<open>&str\<close> is the list of its UTF-8 bytes (Isabelle's \<open>char\<close> is a
  byte), so the byte offsets of the code are list indices, and \<open>usize\<close> is \<open>nat\<close>. Every
  operation that may panic returns \<open>panic + 'a\<close>, sequenced by \<open>rbind\<close>. String slicing
  panics as \<open>core::str\<close> does: an end past the length, \<open>begin > end\<close>, or an end inside a
  character. \<open>usize\<close> subtraction panics on underflow, as in a debug build. Additions cannot
  overflow, since every sum of the code is bounded by the length of the text. \<open>&mut self\<close>
  is explicit state passing: \<open>iter_next\<close> returns the item together with the new state. All
  definitions are executable, and recursion that is not structural is a \<open>function\<close> with a
  measure (the bytes left after the cursor), so no fuel is needed.
  \<^item> \<open>Prelude\<close>: the byte and string types, the panic monad, checked subtraction
    \<open>usize_sub\<close>, \<open>Option::is_some_and\<close>, \<open><[T]>::get\<close>.
  \<^item> \<open>Rust_Str\<close>: the parts of \<open>core::str\<close> and of the \<open>memchr\<close> crate the code calls.
    These are UTF-8 well-formedness \<open>valid_utf8\<close> (the invariant of every \<open>&str\<close>),
    \<open>is_char_boundary\<close>, the panicking slices \<open>str_slice\<close>/\<open>str_to\<close>/\<open>str_from\<close>, the
    decoder \<open>next_code_point\<close>/\<open>chars\<close>, \<open>last_char\<close> (\<open>chars().rev().next()\<close>),
    \<open>char::is_whitespace\<close>, \<open>trim_start\<close>, \<open>trim\<close>, \<open>starts_with\<close>, \<open>find\<close>,
    \<open>memchr2\<close> and \<open>memchr_iter\<close>, with the lemmas on splitting and decoding at char
    boundaries.
  \<^item> \<open>Find_Newline\<close>: \<open>find_newline\<close> (lines 173--191).
  \<^item> \<open>Trivia\<close>: \<open>Cow<str>\<close> as \<open>cow\<close>, \<open>RequirementLine\<close> as the record
    \<open>requirement_line\<close>, \<open>from_line\<close>, \<open>as_str\<close>, and \<open>strip_trivia\<close> with its comment
    loop \<open>strip_comment\<close> (lines 44--91).
  \<^item> \<open>Req_Iterator\<close>: \<open>RequirementsIterator\<close> as the record \<open>iter\<close> (\<open>text'\<close>,
    \<open>index\<close>), \<open>new\<close> as \<open>iter_new\<close>, \<open>Iterator::next\<close> as \<open>iter_next\<close> (lines
    94--170), and its \<open>while let\<close> continuation loop as \<open>eat_lines\<close>.
  \<^item> \<open>Requirements\<close>: \<open>Requirements\<close> with \<open>Deref\<close>, and \<open>from_str\<close> (lines 9--30).
    Its \<open>map(..).collect::<Result<Vec<_>, _>>()\<close> becomes \<open>collect_requirements\<close>, which
    pulls items lazily and stops at the first parser error. The PEP 508 parser
    \<open>Requirement::from_str\<close> is the function parameter \<open>parse\<close>, the interface to the
    external crate, so every result holds for every parser.
  \<^item> \<open>Logical_Lines\<close>: the reference specification of section 4 of the spec.
    \<open>phys\<close> splits the text into terminated physical lines and an unterminated rest.
    \<open>spec_lines\<close> reads them as the spec does: \<open>physical_lines\<close>, then
    \<open>spec_logical\<close>, which suppresses (\<open>skipped\<close>) a comment or blank line together with
    any chain it starts, and joins chains (\<open>spec_join\<close>) up to the first line that is not
    continued, the unterminated last line included. \<open>logical\<close> with \<open>join\<close> is the
    line-by-line reading that the code implements, and \<open>logical_spec_logical\<close> says when
    the two readings agree. \<open>parse_lines\<close> is the collection builder of section 4.3, and
    \<open>to_lf\<close> normalises line breaks.
  \<^item> \<open>Pip_Compile\<close>: the inputs of the snapshot tests, \<open>tests::simple\<close> (lines
    202--206) as \<open>simple_text\<close> and \<open>tests::pip_compile\<close> (lines 208--290) as
    \<open>pip_compile_text\<close>, with lemmas that evaluate texts of terminated ASCII
    lines one line at a time.
  \<^item> \<open>Refinement\<close>: the simulation of the reference splitter by the iterator. Its cursor
    invariant \<open>cursor_ok\<close> says the cursor is at a line start or on the last byte. From such a
    cursor, \<open>iter_next\<close> yields the first line of \<open>iter_lines\<close> and leaves the cursor
    where \<open>iter_lines\<close> has the other lines left, and \<open>eat_lines\<close> computes \<open>join\<close>.
    This gives \<open>from_str\<close> in closed form, as \<open>parse_lines\<close> over \<open>iter_lines\<close>.
  \<^item> \<open>Spec_Strip\<close>: the Trivia Stripper as section 4.2 of the spec states it
    (\<open>spec_clean_len\<close>), the builder of section 4.3 (\<open>spec_collect\<close>), and the whole
    specification \<open>spec_from_str\<close>, which mentions no definition of the code.

  \<^bold>\<open>Results.\<close> C1 is the refinement theorem. On a well-formed non-empty text,
  \<open>from_str\<close> is the specification's builder over the specification's logical lines,
  except in three cases: a continued comment line, a chain still open at the unterminated
  last line, and an unterminated last line of one byte. C19, C20 and C5 show what the code
  does in these cases. C2 and C3 give the first-error-wins and all-success behaviour of the
  builder. C4 says the only panics are the empty text and \<open>strip_trivia\<close>'s slice. C6
  covers continuation chains, C7 texts of comments and blanks only, and C8 independence
  from the kind of line break. C9--C11 are the iterator's cursor invariant, fusedness and
  progress. C12 is \<open>find_newline\<close>'s first-break theorem. C13--C16 are on
  \<open>strip_trivia\<close>: the exact condition under which it panics (a \<open>#\<close> after the first
  byte, because it slices \<open>requirement[..len + position]\<close> with \<open>len\<close> the full length),
  the \<open>--hash\<close> cut, that \<open>as_str\<close> cannot panic, and idempotence. C17 is the
  end-to-end refinement. Under C1's hypotheses, and when no surviving line contains
  \<open>#\<close>, \<open>from_str\<close> returns exactly \<open>spec_from_str\<close>, with no code on the
  specification's side. With a \<open>#\<close> after the first byte the code panics instead (C4, C13).
  C18 is the remaining difference of the stripper: a line that begins with \<open>#\<close> and ends
  in whitespace gets clean span 0, where the specification keeps it. \<open>from_str\<close>
  reaches that case through a continuation chain whose first line is a lone backslash: on
  \<open>"\\\n# x \n"\<close> the joined line is \<open>"# x "\<close> and the parser receives the empty
  string. C19 and C20 are the two places where the line structure of the code departs from
  the specification.

  \<^bold>\<open>Not modelled.\<close> The PEP 508 grammar (\<open>pep508_rs\<close>, an external crate) is a
  parameter of the model. \<open>Debug\<close> formatting is not modelled, nor are the expected
  values of the \<open>insta\<close> snapshot tests, which are the external parser's debug output;
  their inputs are modelled and evaluated (\<open>simple_requirements\<close>,
  \<open>pip_compile_requirements\<close>). Release builds
  wrap \<open>usize\<close> arithmetic instead of panicking; the model follows the debug profile, where
  \<open>"".len() - 1\<close> panics.
\<close>

subsection \<open>The iterator refines the specification\<close>

text \<open>
  C1: \<open>Requirements::from_str\<close> strips and parses exactly the logical lines of the
  specification (\<open>spec_lines\<close>: comment and blank lines dropped, continuation chains
  joined), in order, stopping at the first error, for every PEP 508 parser, on every
  well-formed non-empty text in which no comment line is continued, no continuation chain is
  still open at an unterminated last line, and the unterminated last line is not a single
  byte (C4, C5, C19 and C20 show what the code does in those cases).
\<close>

theorem from_str_refines:
  assumes "valid_utf8 s" and "s \<noteq> []"
    and "\<forall>l \<in> set (fst (phys s)). skipped l \<longrightarrow> \<not> ends_bslash l"
    and "snd (phys s) = [] \<or> \<not> open_chain (fst (phys s))" and "length (snd (phys s)) \<noteq> 1"
  shows "from_str parse s = rbind (parse_lines parse (spec_lines s)) (\<lambda>v. Inr (map_sum id Requirements v))"
  using from_str_eq [OF assms(1,2), where parse = parse] iter_lines_spec [OF assms(3-5)] by simp

theorem from_str_refines_witness:
  "from_str (Inr :: str \<Rightarrow> unit + str) (''a==1'' @ [CR, LF] @ ''b==2'') =
     Inr (Inr (Requirements [''a==1'', ''b==2'']))"
  using from_str_refines [of "''a==1'' @ [CR, LF] @ ''b==2''" "Inr :: str \<Rightarrow> unit + str"]
  by (simp add: ascii_eval del: parse_lines.simps(2))

text \<open>
  C2: the first parser error wins: when the lines before a line all strip and parse, and that
  line strips but does not parse, the result is that error, whatever the later lines hold
  (even a line whose stripping would panic is never reached).
\<close>

theorem from_str_first_error:
  assumes "valid_utf8 s" and "s \<noteq> []" and "iter_lines s = pre @ c # cs"
    and "\<forall>d \<in> set pre. \<exists>n r. strip_trivia (cow_str d) = Inr n \<and> parse (take n (cow_str d)) = Inr r"
    and "strip_trivia (cow_str c) = Inr n" and "parse (take n (cow_str c)) = Inl e"
  shows "from_str parse s = Inr (Inl e)"
  using from_str_eq [OF assms(1,2), where parse = parse] parse_lines_first_error [OF assms(4-6)] assms(3) by simp

theorem from_str_first_error_witness:
  "from_str (\<lambda>x. if x = ''bad'' then Inl () else Inr x) (''ok'' @ [LF] @ ''bad'' @ [LF] @ ''x #y'') =
     Inr (Inl ())"
  using from_str_first_error [of "''ok'' @ [LF] @ ''bad'' @ [LF] @ ''x #y''" "[Borrowed ''ok'']"
      "Borrowed ''bad''" "[Borrowed ''x #y'']" "\<lambda>x. if x = ''bad'' then Inl () else Inr x" 3 "()"]
  by (simp add: ascii_eval del: parse_lines.simps(2))

text \<open>
  C3: when every line strips and parses, the collection holds the parsed requirements of the
  lines, in the order of the text.
\<close>

theorem from_str_all_ok:
  assumes "valid_utf8 s" and "s \<noteq> []"
    and "list_all2 (\<lambda>c r. \<exists>n. strip_trivia (cow_str c) = Inr n \<and> parse (take n (cow_str c)) = Inr r)
           (iter_lines s) rs"
  shows "from_str parse s = Inr (Inr (Requirements rs))"
  using from_str_eq [OF assms(1,2), where parse = parse] parse_lines_all_ok [OF assms(3)] by simp

theorem from_str_all_ok_witness:
  "from_str (Inr :: str \<Rightarrow> unit + str) (''a==1 --hash=x'' @ [LF] @ ''# c'' @ [LF] @ ''b==2'') =
     Inr (Inr (Requirements [''a==1 '', ''b==2'']))"
  using from_str_all_ok [of "''a==1 --hash=x'' @ [LF] @ ''# c'' @ [LF] @ ''b==2''"
      "Inr :: str \<Rightarrow> unit + str" "[''a==1 '', ''b==2'']"]
  by (simp add: ascii_eval)

subsection \<open>Panics\<close>

text \<open>
  C4: the only panics of \<open>from_str\<close> on a well-formed text are the underflow of
  \<open>self.text.len() - 1\<close> on the empty text and the slice of \<open>strip_trivia\<close> past the end
  of a line holding a \<open>#\<close> after its first byte: the slicing of the iterator itself never
  panics.
\<close>

theorem from_str_panics_only_strip:
  assumes "valid_utf8 s" and "from_str parse s = Inl e"
  shows "(s = [] \<and> e = Arith_overflow) \<or>
         (e = Slice_out_of_bounds \<and>
          (\<exists>c \<in> set (iter_lines s). HASH \<in> set (tl (cow_str c)) \<and> \<not> comment_at_start (cow_str c)))"
proof (cases "s = []")
  case True
  with assms(2) show ?thesis
    by (simp add: from_str_def iter_new_def collect_requirements.simps iter_next_empty)
next
  case False
  from assms(2) from_str_eq [OF assms(1) False, where parse = parse]
  have "parse_lines parse (iter_lines s) = Inl e" by (auto simp: rbind_eq_Inl)
  then obtain c where "c \<in> set (iter_lines s)" "strip_trivia (cow_str c) = Inl e"
    using parse_lines_Inl by blast
  then show ?thesis by (auto simp: strip_trivia_Inl)
qed

theorem from_str_panics_only_strip_witness:
  "from_str (Inr :: str \<Rightarrow> unit + str) (''a==1 # x'' @ [LF]) = Inl Slice_out_of_bounds \<and>
   Borrowed ''a==1 # x'' \<in> set (iter_lines (''a==1 # x'' @ [LF]))"
proof -
  have e: "from_str (Inr :: str \<Rightarrow> unit + str) (''a==1 # x'' @ [LF]) = Inl Slice_out_of_bounds"
    by (subst from_str_eq) (simp_all add: ascii_eval del: parse_lines.simps(2))
  have "valid_utf8 (''a==1 # x'' @ [LF])" by (simp add: is_ascii_def)
  from from_str_panics_only_strip [OF this e] e show ?thesis by (simp add: ascii_eval)
qed

text \<open>
  C5: an unterminated last line of exactly one byte is dropped: the guard
  \<open>self.index == self.text.len() - 1\<close> stops the iterator before it, so \<open>from_str\<close>
  parses only the lines before it, where the specification also keeps that line.
\<close>

theorem from_str_drops_last_byte:
  assumes "valid_utf8 s" and "snd (phys s) = [b]"
  shows "from_str parse s = rbind (parse_lines parse (logical (fst (phys s)))) (\<lambda>v. Inr (map_sum id Requirements v))"
proof -
  have "s \<noteq> []" using assms(2) by auto
  from from_str_eq [OF assms(1) this, where parse = parse] iter_lines_one_byte [OF assms(2)]
  show ?thesis by simp
qed

theorem from_str_drops_last_byte_witness:
  "from_str (Inr :: str \<Rightarrow> unit + str) (''a==1'' @ [LF] @ ''b'') = Inr (Inr (Requirements [''a==1''])) \<and>
   spec_lines (''a==1'' @ [LF] @ ''b'') = [Borrowed ''a==1'', Borrowed ''b'']"
proof -
  have "from_str (Inr :: str \<Rightarrow> unit + str) (''a==1'' @ [LF] @ ''b'') = Inr (Inr (Requirements [''a==1'']))"
    using from_str_drops_last_byte [of "''a==1'' @ [LF] @ ''b''" "CHR ''b''" "Inr :: str \<Rightarrow> unit + str"]
    by (simp add: ascii_eval del: parse_lines.simps(2))
  moreover have "spec_lines (''a==1'' @ [LF] @ ''b'') = [Borrowed ''a==1'', Borrowed ''b'']"
    by (simp add: ascii_eval)
  ultimately show ?thesis ..
qed

subsection \<open>Line structure\<close>

text \<open>
  C6: a continuation chain (lines ending in a backslash before the break, then a line that
  does not) at the start of the text is the first item of the iterator: one owned line, the
  concatenation of the chain's lines without their backslashes.
\<close>

theorem iter_next_continuation:
  assumes "valid_utf8 s" and "s = concat (map (\<lambda>x. x @ [BSLASH, LF]) (l0 # ls)) @ l @ [LF] @ rest"
    and "\<forall>x \<in> set (l0 # ls). \<forall>b \<in> set x. \<not> is_break b" and "\<forall>b \<in> set l. \<not> is_break b"
    and "\<not> skipped (l0 @ [BSLASH])" and "\<not> ends_bslash l"
  shows "\<exists>j. iter_next (iter_new s) =
           rbind (from_line (Owned (concat (l0 # ls) @ l))) (\<lambda>r. Inr (Some r, \<lparr>text' = s, index = j\<rparr>))"
proof -
  have ph: "phys s = (map (\<lambda>x. x @ [BSLASH]) (l0 # ls) @ l # fst (phys rest), snd (phys rest))"
    using phys_chain [OF assms(3,4)] assms(2) by simp
  have "join l0 (map (\<lambda>x. x @ [BSLASH]) ls @ l # fst (phys rest)) = (l0 @ concat ls @ l, fst (phys rest))"
    using join_chain [OF assms(6)] by simp
  then have il: "iter_lines s = Owned (concat (l0 # ls) @ l) # iter_lines rest"
    using assms(5) by (simp add: iter_lines_def ph logical.simps(2) ends_bslash_def split: prod.split)
  have "s \<noteq> []" "cursor_ok s 0" using assms(2) by (auto simp: cursor_ok_def line_start_def)
  from iter_next_refines [OF assms(1) this] il show ?thesis by (auto simp: iter_new_def)
qed

theorem iter_next_continuation_witness:
  "\<exists>j. iter_next (iter_new (''pkg==1.0 '' @ [BSLASH, LF] @ ''    --hash=sha256:abc'' @ [LF])) =
     rbind (from_line (Owned ''pkg==1.0     --hash=sha256:abc''))
       (\<lambda>r. Inr (Some r, \<lparr>text' = ''pkg==1.0 '' @ [BSLASH, LF] @ ''    --hash=sha256:abc'' @ [LF], index = j\<rparr>))"
  using iter_next_continuation [of "''pkg==1.0 '' @ [BSLASH, LF] @ ''    --hash=sha256:abc'' @ [LF]"
      "''pkg==1.0 ''" "[]" "''    --hash=sha256:abc''" "[]"]
  by (simp add: ascii_eval)

text \<open>
  C7: a non-empty text made only of comment lines and blank lines gives the empty collection.
\<close>

theorem from_str_blank_only:
  assumes "valid_utf8 s" and "s \<noteq> []"
    and "\<forall>l \<in> set (fst (phys s)). skipped l" and "skipped (snd (phys s))"
  shows "from_str parse s = Inr (Inr (Requirements []))"
proof -
  have "iter_lines s = []"
    using logical_skipped [OF assms(3)] assms(4)
    by (cases "phys s") (simp add: iter_lines_def last_line_def tail_line_def)
  with from_str_eq [OF assms(1,2), where parse = parse] show ?thesis by simp
qed

theorem from_str_blank_only_witness:
  "from_str (Inr :: str \<Rightarrow> unit + str) (''  '' @ [CR, LF] @ ''  # a'' @ [CR] @ ''#'') = Inr (Inr (Requirements []))"
  using from_str_blank_only [of "''  '' @ [CR, LF] @ ''  # a'' @ [CR] @ ''#''" "Inr :: str \<Rightarrow> unit + str"]
  by (simp add: ascii_eval)

text \<open>
  C8: the kind of line break does not matter: rewriting every \<open>\r\n\<close> and lone \<open>\r\<close> of a
  well-formed text to \<open>\n\<close> gives the same result of \<open>from_str\<close>, panics included.
\<close>

theorem from_str_line_endings:
  assumes "valid_utf8 s"
  shows "from_str parse (to_lf s) = from_str parse s"
proof (cases "s = []")
  case False
  have "iter_lines (to_lf s) = iter_lines s" by (simp add: iter_lines_def phys_to_lf)
  with from_str_eq [OF assms False, where parse = parse]
    from_str_eq [OF valid_utf8_to_lf [OF assms], where parse = parse] False
  show ?thesis by simp
qed simp

theorem from_str_line_endings_witness:
  "from_str (Inr :: str \<Rightarrow> unit + str) (to_lf (''a '' @ [BSLASH, CR, LF] @ '' b'' @ [CR] @ ''c'')) =
   from_str (Inr :: str \<Rightarrow> unit + str) (''a '' @ [BSLASH, CR, LF] @ '' b'' @ [CR] @ ''c'')"
  by (rule from_str_line_endings) (simp add: is_ascii_def)

subsection \<open>The iterator's state\<close>

text \<open>
  C9: the cursor invariant of \<open>RequirementsIterator\<close>: on a well-formed text, a cursor
  at the start of a line or on the last byte stays so after \<open>next\<close>, and such a cursor is
  a char boundary unless it is on the last byte (where \<open>next\<close> slices nothing).
\<close>

theorem iter_cursor_invariant:
  assumes "valid_utf8 s" and "s \<noteq> []" and "cursor_ok s i"
    and "iter_next \<lparr>text' = s, index = i\<rparr> = Inr (x, it')"
  shows "text' it' = s \<and> cursor_ok s (index it') \<and>
         (is_char_boundary s (index it') \<or> Suc (index it') = length s)"
proof -
  have tc: "text' it' = s \<and> cursor_ok s (index it')" by (rule iter_next_cursor_ok [OF assms])
  then have "is_char_boundary s (index it') \<or> Suc (index it') = length s"
    using line_start_boundary [OF assms(1)] by (auto simp: cursor_ok_def)
  with tc show ?thesis by blast
qed

theorem iter_cursor_invariant_witness:
  "iter_next \<lparr>text' = ''ab'' @ [LF], index = 0\<rparr> =
     Inr (Some \<lparr>line = Borrowed ''ab'', len = 2\<rparr>, \<lparr>text' = ''ab'' @ [LF], index = 3\<rparr>) \<and>
   cursor_ok (''ab'' @ [LF]) 3 \<and> is_char_boundary (''ab'' @ [LF]) 3"
proof -
  have n: "iter_next \<lparr>text' = ''ab'' @ [LF], index = 0\<rparr> =
     Inr (Some \<lparr>line = Borrowed ''ab'', len = 2\<rparr>, \<lparr>text' = ''ab'' @ [LF], index = 3\<rparr>)"
    by (subst iter_next_unfold) (simp_all add: iter_eval)
  have "valid_utf8 (''ab'' @ [LF])" "cursor_ok (''ab'' @ [LF]) 0"
    by (simp_all add: is_ascii_def cursor_ok_def line_start_def)
  from iter_cursor_invariant [OF this(1) _ this(2) n] n show ?thesis by simp
qed

subsection \<open>Where the code and the specification part\<close>

text \<open>
  C19: a comment line continued by a backslash is dropped alone. Whatever line follows it is
  read as a line of its own, so \<open>from_str\<close> gives what it gives on the text without the
  comment line. The specification drops the whole chain, the next line included.
\<close>

theorem from_str_continued_comment:
  assumes "\<forall>b \<in> set l. \<not> is_break b" and "skipped l" and "ends_bslash l" and "line_break brk rest"
    and "valid_utf8 (l @ brk @ rest)" and "rest \<noteq> []"
    and "\<forall>b \<in> set m. \<not> is_break b" and "\<not> ends_bslash m" and "line_break brk' rest'"
    and "rest = m @ brk' @ rest'"
  shows "from_str parse (l @ brk @ rest) = from_str parse rest \<and> spec_lines (l @ brk @ rest) = spec_lines rest'"
proof
  have v: "valid_utf8 rest" by (rule valid_utf8_after_line [OF assms(5,4)])
  have "iter_lines (l @ brk @ rest) = iter_lines rest" using iter_lines_line [OF assms(1,4)] assms(2) by simp
  then show "from_str parse (l @ brk @ rest) = from_str parse rest"
    using from_str_eq [OF assms(5) line_break_nonempty [OF assms(4)], where parse = parse]
          from_str_eq [OF v assms(6), where parse = parse] by simp
next
  have "physical_lines (l @ brk @ rest) = (l, True) # (m, True) # physical_lines rest'"
    using physical_lines_line [OF assms(1,4)] physical_lines_line [OF assms(7,9)] assms(10) by simp
  then show "spec_lines (l @ brk @ rest) = spec_lines rest'"
    using assms(2,3,8) by (simp add: spec_lines_def spec_logical.simps(2))
qed

theorem from_str_continued_comment_witness:
  "from_str (Inr :: str \<Rightarrow> unit + str) (''# c '' @ [BSLASH] @ [LF] @ ''a==1'' @ [LF]) =
     Inr (Inr (Requirements [''a==1''])) \<and>
   spec_lines (''# c '' @ [BSLASH] @ [LF] @ ''a==1'' @ [LF]) = []"
proof -
  have g: "from_str (Inr :: str \<Rightarrow> unit + str) ((''# c '' @ [BSLASH]) @ [LF] @ (''a==1'' @ [LF])) =
      from_str Inr (''a==1'' @ [LF]) \<and>
    spec_lines ((''# c '' @ [BSLASH]) @ [LF] @ (''a==1'' @ [LF])) = spec_lines []"
    by (rule from_str_continued_comment [where m = "''a==1''" and brk' = "[LF]"])
       (simp_all add: ascii_eval line_break_def)
  have "from_str (Inr :: str \<Rightarrow> unit + str) (''a==1'' @ [LF]) = Inr (Inr (Requirements [''a==1'']))"
    by (subst from_str_eq) (simp_all add: ascii_eval del: parse_lines.simps(2))
  moreover have "spec_lines [] = []" by (simp add: ascii_eval)
  ultimately show ?thesis using g by simp
qed

text \<open>
  C20: a continuation chain still open when the line breaks run out ends before the
  unterminated last line. That line becomes a requirement of its own, while the specification
  joins it to the chain.
\<close>

theorem from_str_open_chain:
  assumes "\<forall>b \<in> set l. \<not> is_break b" and "\<not> skipped l" and "ends_bslash l" and "line_break brk t"
    and "\<forall>b \<in> set t. \<not> is_break b" and "\<not> skipped t" and "length t \<noteq> 1"
    and "valid_utf8 (l @ brk @ t)"
  shows "from_str parse (l @ brk @ t) =
           rbind (parse_lines parse [Owned (butlast l), Borrowed t]) (\<lambda>v. Inr (map_sum id Requirements v)) \<and>
         spec_lines (l @ brk @ t) = [Owned (butlast l @ t)]"
proof -
  have p: "phys t = ([], t)" by (rule phys_no_break [OF assms(5)])
  have "iter_lines (l @ brk @ t) = [Owned (butlast l), Borrowed t]"
    using iter_lines_line [OF assms(1,4)] assms(2,3,6,7) p
    by (simp add: last_line_def tail_line_def)
  then have c: "from_str parse (l @ brk @ t) =
           rbind (parse_lines parse [Owned (butlast l), Borrowed t]) (\<lambda>v. Inr (map_sum id Requirements v))"
    using from_str_eq [OF assms(8) line_break_nonempty [OF assms(4)], where parse = parse]
    by (simp del: parse_lines.simps)
  have "physical_lines (l @ brk @ t) = [(l, True), (t, False)]"
    using physical_lines_line [OF assms(1,4)] p by (simp add: physical_lines_def)
  then have "spec_lines (l @ brk @ t) = [Owned (butlast l @ t)]"
    using assms(2,3) by (simp add: spec_lines_def spec_logical.simps(2))
  with c show ?thesis by blast
qed

theorem from_str_open_chain_witness:
  "from_str (Inr :: str \<Rightarrow> unit + str) (''a '' @ [BSLASH] @ [LF] @ ''bc'') =
     Inr (Inr (Requirements [''a '', ''bc''])) \<and>
   spec_lines (''a '' @ [BSLASH] @ [LF] @ ''bc'') = [Owned ''a bc'']"
proof -
  have g: "from_str (Inr :: str \<Rightarrow> unit + str) ((''a '' @ [BSLASH]) @ [LF] @ ''bc'') =
      rbind (parse_lines Inr [Owned (butlast (''a '' @ [BSLASH])), Borrowed ''bc''])
        (\<lambda>v. Inr (map_sum id Requirements v)) \<and>
    spec_lines ((''a '' @ [BSLASH]) @ [LF] @ ''bc'') = [Owned (butlast (''a '' @ [BSLASH]) @ ''bc'')]"
    by (rule from_str_open_chain) (simp_all add: ascii_eval line_break_def)
  then show ?thesis by (simp add: ascii_eval del: parse_lines.simps(2))
qed

end
